theory Spec2Isabelle
  imports Complex_Main "HOL-Library.Sublist"
begin

section \<open>Python text operations used by the memory engine\<close>

text \<open>
  Text is modelled as \<^typ>\<open>string\<close>, a character being a code point from 0 to 255
  (Latin-1); code points above 255 are outside the model. The whitespace of
  \<open>str.strip()\<close> and \<open>str.split()\<close> is what \<open>str.isspace\<close> accepts in that range: tab, line
  feed, vertical tab, form feed, carriage return, the four separators 0x1C..0x1F, the
  space, the next-line control 0x85 and the no-break space 0xA0. \<open>str.lower\<close> maps
  \<open>A\<close>..\<open>Z\<close> and the capital letters 0xC0..0xDE (the multiplication sign 0xD7 apart) to
  the code point 32 higher, and leaves every other character alone.
\<close>

definition isspace :: "char \<Rightarrow> bool" where
  "isspace c = (c \<in> set [CHR 0x09, CHR 0x0A, CHR 0x0B, CHR 0x0C, CHR 0x0D,
                           CHR 0x1C, CHR 0x1D, CHR 0x1E, CHR 0x1F, CHR 0x20,
                           CHR 0x85, CHR 0xA0])"

definition lower_char :: "char \<Rightarrow> char" where
  "lower_char c =
     (let n = (of_char c :: nat)
      in if (65 \<le> n \<and> n \<le> 90) \<or> (192 \<le> n \<and> n \<le> 222 \<and> n \<noteq> 215)
         then char_of (n + 32) else c)"

definition lower :: "string \<Rightarrow> string" where
  "lower s = map lower_char s"

definition strip :: "string \<Rightarrow> string" where
  "strip s = rev (dropWhile isspace (rev (dropWhile isspace s)))"

definition startswith :: "string \<Rightarrow> string \<Rightarrow> bool" where
  "startswith s p = prefix p s"

text \<open>\<open>str.split()\<close> with no argument: the maximal runs of non-whitespace characters.\<close>

fun split_from :: "string \<Rightarrow> string \<Rightarrow> string list" where
  "split_from cur [] = (if cur = [] then [] else [cur])"
| "split_from cur (c # cs) =
     (if isspace c then (if cur = [] then split_from [] cs else cur # split_from [] cs)
      else split_from (cur @ [c]) cs)"

definition split :: "string \<Rightarrow> string list" where
  "split s = split_from [] s"

section \<open>Retention heuristic\<close>

definition small_talk_prefixes :: "string list" where
  "small_talk_prefixes =
     [''hi'', ''hello'', ''hey'', ''good morning'', ''good evening'',
      ''thanks'', ''thank you'', ''ok'', ''okay'', ''bye'', ''goodbye'']"

definition should_store_in_vector_memory :: "string \<Rightarrow> string \<Rightarrow> bool" where
  "should_store_in_vector_memory question answer =
     (let q_lower = lower (strip question) in
      if list_ex (\<lambda>p. startswith q_lower p) small_talk_prefixes then False
      else if length (split question) < 4 \<or> length (split answer) < 6 then False
      else True)"

section \<open>Errors\<close>

text \<open>
  Every exception the modelled code can raise is a value. \<open>UpstreamError\<close> stands for a
  failure of the external embedding call, \<open>DatabaseError\<close> for an error the database
  connector raises while a statement or a commit runs.
\<close>

datatype error =
  AssertionError | IndexError | KeyError | AttributeError | UpstreamError | DatabaseError

type_synonym 'a result = "error + 'a"

text \<open>
  Reading \<open>xs[i]\<close> from a Python list: positions \<open>0\<close> to \<open>len(xs) - 1\<close> read forwards,
  positions \<open>-len(xs)\<close> to \<open>-1\<close> read backwards from the last element, and any other
  position raises \<open>IndexError\<close>.
\<close>

definition getitem :: "'a list \<Rightarrow> int \<Rightarrow> 'a result" where
  "getitem xs i =
     (if 0 \<le> i \<and> i < int (length xs) then Inr (xs ! nat i)
      else if i < 0 \<and> - int (length xs) \<le> i then Inr (xs ! nat (int (length xs) + i))
      else Inl IndexError)"

section \<open>The similarity index\<close>

text \<open>
  Modelled from the spec: the vector-index library behind \<open>faiss.IndexFlatIP\<close> and
  \<open>faiss.normalize_L2\<close> is not part of the sources. The spec gives its contract: embeddings
  are normalised to unit length (a zero vector is left as it is), the index has a
  dimension fixed at creation and an embedding or query of another length is a usage
  error, and a search for \<open>k\<close> neighbours ranks the stored vectors by inner product with
  the query, most similar first. Two points come from the library's own behaviour: a
  search for \<open>k \<le> 0\<close> neighbours is refused, and a requested neighbour that does not exist
  is reported as position \<open>-1\<close>; the store never asks for more neighbours than are stored.
  Embedding components are exact reals here: the cast \<open>astype("float32")\<close> and the
  rounding of 32-bit arithmetic are not modelled.
  The spec does not give the order among stored vectors of equal similarity. It is the
  parameter \<open>tie\<close> below: from the similarities of all stored vectors it gives every
  position a rank, and positions of equal similarity are listed by increasing rank. Every
  order the library could give to equal similarities is some \<open>tie\<close>.
\<close>

type_synonym vec = "real list"

record IndexFlatIP =
  index_d :: nat
  index_xb :: "vec list"

definition new_IndexFlatIP :: "nat \<Rightarrow> IndexFlatIP" where
  "new_IndexFlatIP n = \<lparr>index_d = n, index_xb = []\<rparr>"

definition ntotal :: "IndexFlatIP \<Rightarrow> nat" where
  "ntotal ix = length (index_xb ix)"

definition fvec_norm_L2sqr :: "vec \<Rightarrow> real" where
  "fvec_norm_L2sqr v = sum_list (map (\<lambda>x. x * x) v)"

definition fvec_inner_product :: "vec \<Rightarrow> vec \<Rightarrow> real" where
  "fvec_inner_product u v = sum_list (map2 (*) u v)"

definition fvec_L2sqr :: "vec \<Rightarrow> vec \<Rightarrow> real" where
  "fvec_L2sqr u v = sum_list (map2 (\<lambda>a b. (a - b) * (a - b)) u v)"

definition normalize_L2 :: "vec \<Rightarrow> vec" where
  "normalize_L2 v =
     (let nr = fvec_norm_L2sqr v
      in if nr > 0 then map (\<lambda>x. x * (1 / sqrt nr)) v else v)"

definition index_add :: "IndexFlatIP \<Rightarrow> vec \<Rightarrow> IndexFlatIP result" where
  "index_add ix x =
     (if length x \<noteq> index_d ix then Inl AssertionError
      else Inr (ix\<lparr>index_xb := index_xb ix @ [x]\<rparr>))"

definition similarities :: "IndexFlatIP \<Rightarrow> vec \<Rightarrow> real list" where
  "similarities ix x = map (fvec_inner_product x) (index_xb ix)"

definition ranked :: "(real list \<Rightarrow> nat \<Rightarrow> nat) \<Rightarrow> IndexFlatIP \<Rightarrow> vec \<Rightarrow> nat list" where
  "ranked tie ix x =
     sort_key (\<lambda>i. - (similarities ix x ! i))
       (sort_key (tie (similarities ix x)) [0..<ntotal ix])"

definition index_search ::
  "(real list \<Rightarrow> nat \<Rightarrow> nat) \<Rightarrow> IndexFlatIP \<Rightarrow> vec \<Rightarrow> int \<Rightarrow> int list result" where
  "index_search tie ix x k =
     (if length x \<noteq> index_d ix then Inl AssertionError
      else if k \<le> 0 then Inl AssertionError
      else Inr (map int (take (nat k) (ranked tie ix x))
                @ replicate (nat k - ntotal ix) (- 1)))"

section \<open>The semantic store\<close>

record FaissQAVectorStore =
  questions :: "string list"
  answers :: "string list"
  index :: "IndexFlatIP option"
  dim :: "nat option"

definition FaissQAVectorStore_init :: FaissQAVectorStore where
  "FaissQAVectorStore_init = \<lparr>questions = [], answers = [], index = None, dim = None\<rparr>"

text \<open>
  \<open>add\<close> returns the outcome together with the store as the call leaves it, so that what
  an exception leaves behind is part of the model.
\<close>

definition add ::
  "string \<Rightarrow> string \<Rightarrow> vec \<Rightarrow> FaissQAVectorStore \<Rightarrow> unit result \<times> FaissQAVectorStore" where
  "add question answer embedding s =
     (let s1 = (case index s of
                  None \<Rightarrow> s\<lparr>dim := Some (length embedding),
                             index := Some (new_IndexFlatIP (length embedding))\<rparr>
                | Some _ \<Rightarrow> s);
          emb = normalize_L2 embedding
      in case index s1 of
           None \<Rightarrow> (Inl AttributeError, s1)
         | Some ix \<Rightarrow>
             (case index_add ix emb of
                Inl e \<Rightarrow> (Inl e, s1)
              | Inr ix' \<Rightarrow>
                  (Inr (), s1\<lparr>index := Some ix',
                               questions := questions s1 @ [question],
                               answers := answers s1 @ [answer]\<rparr>)))"

definition is_empty :: "FaissQAVectorStore \<Rightarrow> bool" where
  "is_empty s = (case index s of None \<Rightarrow> True | Some ix \<Rightarrow> ntotal ix = 0)"

fun collect_results :: "string list \<Rightarrow> string list \<Rightarrow> int list \<Rightarrow> (string \<times> string) list result" where
  "collect_results qs ans [] = Inr []"
| "collect_results qs ans (idx # rest) =
     (case getitem qs idx of
        Inl e \<Rightarrow> Inl e
      | Inr q_text \<Rightarrow>
          (case getitem ans idx of
             Inl e \<Rightarrow> Inl e
           | Inr a_text \<Rightarrow>
               (case collect_results qs ans rest of
                  Inl e \<Rightarrow> Inl e
                | Inr results \<Rightarrow> Inr ((q_text, a_text) # results))))"

definition search ::
  "(real list \<Rightarrow> nat \<Rightarrow> nat) \<Rightarrow> FaissQAVectorStore \<Rightarrow> vec \<Rightarrow> int
     \<Rightarrow> (string \<times> string) list result" where
  "search tie s query_embedding top_k =
     (if is_empty s then Inr []
      else case index s of
             None \<Rightarrow> Inl AttributeError
           | Some ix \<Rightarrow>
               (let q = normalize_L2 query_embedding;
                    k = min top_k (int (ntotal ix))
                in case index_search tie ix q k of
                     Inl e \<Rightarrow> Inl e
                   | Inr indices \<Rightarrow> collect_results (questions s) (answers s) indices))"

text \<open>
  A store is used through a sequence of \<open>add\<close> and \<open>search\<close> calls; \<open>search\<close> assigns no
  field of the store.
\<close>

datatype call = Add string string vec | Search vec int

fun step :: "FaissQAVectorStore \<Rightarrow> call \<Rightarrow> FaissQAVectorStore" where
  "step s (Add q a e) = snd (add q a e s)"
| "step s (Search e k) = s"

definition run :: "call list \<Rightarrow> FaissQAVectorStore" where
  "run calls = foldl step FaissQAVectorStore_init calls"

definition entries :: "FaissQAVectorStore \<Rightarrow> (string \<times> string) list" where
  "entries s = zip (questions s) (answers s)"

text \<open>The size of the index of a store; a store without an index has none stored.\<close>

definition index_ntotal :: "FaissQAVectorStore \<Rightarrow> nat" where
  "index_ntotal s = (case index s of None \<Rightarrow> 0 | Some ix \<Rightarrow> ntotal ix)"

text \<open>The consistency of a store that the proofs below carry through every call.\<close>

definition store_inv :: "FaissQAVectorStore \<Rightarrow> bool" where
  "store_inv s =
     (case index s of
        None \<Rightarrow> questions s = [] \<and> answers s = [] \<and> dim s = None
      | Some ix \<Rightarrow>
          ntotal ix = length (questions s) \<and> length (answers s) = length (questions s)
          \<and> dim s = Some (index_d ix) \<and> list_all (\<lambda>v. length v = index_d ix) (index_xb ix))"

section \<open>Token utilities\<close>

text \<open>
  Modelled from the spec: the tokenizer behind \<open>count_tokens\<close> is an external library. It
  is the parameter \<open>count_tokens\<close> below, a deterministic function from a text to a
  non-negative count, as the spec's contract for the tokenizer adapter says.
\<close>

text \<open>
  A message is a Python dict from field names to text. The rows the database returns
  carry a \<open>timestamp\<close> field beside \<open>role\<close> and \<open>content\<close>.
\<close>

type_synonym message = "string \<rightharpoonup> string"

definition dict_get :: "message \<Rightarrow> string \<Rightarrow> string \<Rightarrow> string" where
  "dict_get m k dflt = (case m k of None \<Rightarrow> dflt | Some v \<Rightarrow> v)"

definition newline :: string where
  "newline = [CHR 0x0A]"

definition count_message_list_tokens :: "(string \<Rightarrow> nat) \<Rightarrow> message list \<Rightarrow> int" where
  "count_message_list_tokens count_tokens messages =
     foldl (\<lambda>total msg.
              total + int (count_tokens
                (dict_get msg ''role'' [] @ '': '' @ dict_get msg ''content'' [] @ newline)))
           0 messages"

text \<open>
  The clean copy \<open>{"role": msg["role"], "content": msg["content"]}\<close>: reading a field the
  message does not have raises \<open>KeyError\<close>.
\<close>

definition clean_msg :: "message \<Rightarrow> message result" where
  "clean_msg msg =
     (case msg ''role'' of
        None \<Rightarrow> Inl KeyError
      | Some r \<Rightarrow>
          (case msg ''content'' of
             None \<Rightarrow> Inl KeyError
           | Some c \<Rightarrow> Inr [''role'' \<mapsto> r, ''content'' \<mapsto> c]))"

text \<open>
  The loop of \<open>select_recent_messages_within_budget\<close> over the reversed history: it
  stops at the first message that would overflow the budget.
\<close>

fun recent_loop ::
  "(string \<Rightarrow> nat) \<Rightarrow> int \<Rightarrow> message list \<Rightarrow> message list \<Rightarrow> int \<Rightarrow> message list result" where
  "recent_loop count_tokens max_tokens [] selected total_tokens = Inr selected"
| "recent_loop count_tokens max_tokens (msg # rest) selected total_tokens =
     (let msg_tokens = count_message_list_tokens count_tokens [msg]
      in if total_tokens + msg_tokens > max_tokens then Inr selected
         else (case clean_msg msg of
                 Inl e \<Rightarrow> Inl e
               | Inr clean \<Rightarrow>
                   recent_loop count_tokens max_tokens rest (selected @ [clean])
                     (total_tokens + msg_tokens)))"

definition select_recent_messages_within_budget ::
  "(string \<Rightarrow> nat) \<Rightarrow> message list \<Rightarrow> int \<Rightarrow> message list result" where
  "select_recent_messages_within_budget count_tokens history max_tokens =
     (case recent_loop count_tokens max_tokens (rev history) [] 0 of
        Inl e \<Rightarrow> Inl e
      | Inr selected \<Rightarrow> Inr (rev selected))"

definition pair_text :: "string \<Rightarrow> string \<Rightarrow> string" where
  "pair_text q a = ''Q: '' @ q @ newline @ ''A: '' @ a @ newline"

fun qa_loop ::
  "(string \<Rightarrow> nat) \<Rightarrow> int \<Rightarrow> (string \<times> string) list \<Rightarrow> (string \<times> string) list \<Rightarrow> int
     \<Rightarrow> (string \<times> string) list" where
  "qa_loop count_tokens max_tokens [] selected total_tokens = selected"
| "qa_loop count_tokens max_tokens ((q, a) # rest) selected total_tokens =
     (let pair_tokens = int (count_tokens (pair_text q a))
      in if total_tokens + pair_tokens > max_tokens then selected
         else qa_loop count_tokens max_tokens rest (selected @ [(q, a)])
                (total_tokens + pair_tokens))"

definition select_vector_qa_within_budget ::
  "(string \<Rightarrow> nat) \<Rightarrow> (string \<times> string) list \<Rightarrow> int \<Rightarrow> (string \<times> string) list" where
  "select_vector_qa_within_budget count_tokens qa_pairs max_tokens =
     qa_loop count_tokens max_tokens qa_pairs [] 0"

text \<open>The token cost of a list of pairs, each rendered as the loop renders it.\<close>

definition qa_tokens :: "(string \<Rightarrow> nat) \<Rightarrow> (string \<times> string) list \<Rightarrow> int" where
  "qa_tokens count_tokens qa_pairs =
     sum_list (map (\<lambda>(q, a). int (count_tokens (pair_text q a))) qa_pairs)"

text \<open>A message cut down to its \<open>role\<close> and \<open>content\<close> fields.\<close>

definition role_content :: "message \<Rightarrow> message" where
  "role_content msg = msg |` {''role'', ''content''}"

definition MAX_HISTORY_TOKENS :: int where
  "MAX_HISTORY_TOKENS = 1200"

definition MAX_VECTOR_QA_TOKENS :: int where
  "MAX_VECTOR_QA_TOKENS = 800"

section \<open>The message database\<close>

text \<open>
  The two tables of \<open>database.py\<close>, rows in insertion order; \<open>now\<close> is the server's clock,
  which stamps a new row, and \<open>ORDER BY timestamp ASC\<close> is a stable sort of the rows. The
  \<open>updated_at\<close> column of a conversation is not kept: no operation modelled here reads it.

  Every operation opens a connection of its own, and what the server does with that
  connection is an argument of the operation:
  \<^item> \<open>Refused\<close>: \<open>mysql.connector.connect\<close> raises, \<open>get_db_connection\<close> catches the error
    and returns \<open>None\<close>, and the operation skips its body without raising;
  \<^item> \<open>Failing\<close>: the connection opens and a statement or the commit raises; nothing is
    committed and the error reaches the caller, for no operation catches it;
  \<^item> \<open>Serving\<close>: every statement and the commit succeed.
\<close>

datatype server = Refused | Failing | Serving

record msg_row =
  row_conversation_id :: string
  row_role :: string
  row_content :: string
  row_timestamp :: nat

record database =
  now :: nat
  conversations :: "(string \<times> string) list"
  messages :: "msg_row list"

definition digit_char :: "nat \<Rightarrow> char" where
  "digit_char n = ''0123456789'' ! n"

fun str_nat :: "nat \<Rightarrow> string" where
  "str_nat n = (if n < 10 then [digit_char n] else str_nat (n div 10) @ [digit_char (n mod 10)])"

definition ensure_conversation_exists ::
  "server \<Rightarrow> string \<Rightarrow> string \<Rightarrow> database \<Rightarrow> unit result \<times> database" where
  "ensure_conversation_exists srv conversation_id title db =
     (case srv of
        Refused \<Rightarrow> (Inr (), db)
      | Failing \<Rightarrow> (Inl DatabaseError, db)
      | Serving \<Rightarrow>
          (if conversation_id \<in> set (map fst (conversations db)) then (Inr (), db)
           else (Inr (), db\<lparr>conversations := conversations db @ [(conversation_id, title)]\<rparr>)))"

definition get_messages :: "server \<Rightarrow> database \<Rightarrow> string \<Rightarrow> message list result" where
  "get_messages srv db conversation_id =
     (case srv of
        Refused \<Rightarrow> Inr []
      | Failing \<Rightarrow> Inl DatabaseError
      | Serving \<Rightarrow>
          Inr (map (\<lambda>r. [''role'' \<mapsto> row_role r, ''content'' \<mapsto> row_content r,
                          ''timestamp'' \<mapsto> str_nat (row_timestamp r)])
                 (sort_key row_timestamp
                    (filter (\<lambda>r. row_conversation_id r = conversation_id) (messages db)))))"

text \<open>
  \<open>add_message\<close> uses two connections: the one of \<open>ensure_conversation_exists\<close>, then its
  own. An error of the first leaves the second unopened.
\<close>

definition add_message ::
  "server \<Rightarrow> server \<Rightarrow> string \<Rightarrow> string \<Rightarrow> string \<Rightarrow> database \<Rightarrow> unit result \<times> database" where
  "add_message srv_ensure srv conversation_id role content db =
     (case ensure_conversation_exists srv_ensure conversation_id ''New Chat'' db of
        (Inl e, db1) \<Rightarrow> (Inl e, db1)
      | (Inr _, db1) \<Rightarrow>
          (case srv of
             Refused \<Rightarrow> (Inr (), db1)
           | Failing \<Rightarrow> (Inl DatabaseError, db1)
           | Serving \<Rightarrow>
               (let db2 = db1\<lparr>messages := messages db1 @
                              [\<lparr>row_conversation_id = conversation_id, row_role = role,
                                row_content = content, row_timestamp = now db1\<rparr>]\<rparr>;
                    count = length (filter (\<lambda>r. row_conversation_id r = conversation_id)
                                      (messages db2))
                in if role = ''user'' \<and> count = 1 then
                     (let title = (if length content > 50 then take 50 content @ ''...''
                                   else content)
                      in (Inr (), db2\<lparr>conversations :=
                               map (\<lambda>(c, t). if c = conversation_id then (c, title) else (c, t))
                                   (conversations db2)\<rparr>))
                   else (Inr (), db2))))"

section \<open>Prompt assembly and the post-response update\<close>

text \<open>
  Modelled from the spec: the embedding service behind \<open>embed_text\<close> is external. It is
  the parameter \<open>embed_text\<close> below; a failed call is \<open>Inl UpstreamError\<close>.
\<close>

definition SYSTEM_INSTRUCTION :: string where
  "SYSTEM_INSTRUCTION =
     ''You are a concise, helpful QA assistant. '' @
     ''Answer the user'' @ [CHR 0x27] @ ''s question clearly and accurately. '' @
     ''If you are unsure, say that you don'' @ [CHR 0x27] @ ''t know.''"

definition get_chat_history :: "server \<Rightarrow> database \<Rightarrow> string \<Rightarrow> message list result" where
  "get_chat_history srv db conversation_id = get_messages srv db conversation_id"

definition build_vector_memory_context ::
  "(string \<Rightarrow> nat) \<Rightarrow> (string \<Rightarrow> vec result) \<Rightarrow> (real list \<Rightarrow> nat \<Rightarrow> nat)
     \<Rightarrow> FaissQAVectorStore \<Rightarrow> string \<Rightarrow> (string \<times> string) list result" where
  "build_vector_memory_context count_tokens embed_text tie vector_store question =
     (if is_empty vector_store then Inr []
      else (case embed_text question of
              Inl e \<Rightarrow> Inl e
            | Inr query_emb \<Rightarrow>
                (case search tie vector_store query_emb 5 of
                   Inl e \<Rightarrow> Inl e
                 | Inr retrieved \<Rightarrow>
                     Inr (select_vector_qa_within_budget count_tokens retrieved
                            MAX_VECTOR_QA_TOKENS))))"

fun join :: "string \<Rightarrow> string list \<Rightarrow> string" where
  "join sep [] = []"
| "join sep [x] = x"
| "join sep (x # y # rest) = x @ sep @ join sep (y # rest)"

fun qa_lines :: "nat \<Rightarrow> (string \<times> string) list \<Rightarrow> string list" where
  "qa_lines idx [] = []"
| "qa_lines idx ((q, a) # rest) =
     (''Q'' @ str_nat idx @ '': '' @ q) # (''A'' @ str_nat idx @ '': '' @ a) # [] #
     qa_lines (Suc idx) rest"

definition build_messages_for_model ::
  "(string \<Rightarrow> nat) \<Rightarrow> (string \<Rightarrow> vec result) \<Rightarrow> (real list \<Rightarrow> nat \<Rightarrow> nat) \<Rightarrow> server
     \<Rightarrow> database \<Rightarrow> FaissQAVectorStore \<Rightarrow> string \<Rightarrow> string \<Rightarrow> message list result" where
  "build_messages_for_model count_tokens embed_text tie srv db vector_store conversation_id
       question =
     (case get_chat_history srv db conversation_id of
        Inl e \<Rightarrow> Inl e
      | Inr history \<Rightarrow>
          (let messages0 = [[''role'' \<mapsto> ''system'', ''content'' \<mapsto> SYSTEM_INSTRUCTION]]
           in case build_vector_memory_context count_tokens embed_text tie vector_store
                     question of
                Inl e \<Rightarrow> Inl e
              | Inr qa_context \<Rightarrow>
                  (let messages1 =
                         (if qa_context \<noteq> [] then
                            messages0 @
                            [[''role'' \<mapsto> ''system'',
                              ''content'' \<mapsto>
                                strip (join newline
                                  (''Here are some relevant previous Q&A you have given:'' #
                                   qa_lines 1 qa_context))]]
                          else messages0)
                   in case select_recent_messages_within_budget count_tokens history
                             MAX_HISTORY_TOKENS of
                        Inl e \<Rightarrow> Inl e
                      | Inr recent_history \<Rightarrow>
                          Inr (messages1 @ recent_history @
                               [[''role'' \<mapsto> ''user'', ''content'' \<mapsto> question]]))))"

text \<open>
  The update returns its outcome with the database and the store as the call leaves
  them, also when it raises. Its two \<open>add_message\<close> calls open four connections in all,
  \<open>srv1\<close> to \<open>srv4\<close> in the order of the calls.
\<close>

definition update_memories_after_response ::
  "(string \<Rightarrow> vec result) \<Rightarrow> server \<Rightarrow> server \<Rightarrow> server \<Rightarrow> server
     \<Rightarrow> string \<Rightarrow> string \<Rightarrow> string \<Rightarrow> database \<Rightarrow> FaissQAVectorStore
     \<Rightarrow> unit result \<times> database \<times> FaissQAVectorStore" where
  "update_memories_after_response embed_text srv1 srv2 srv3 srv4 conversation_id question
       answer db vector_store =
     (case add_message srv1 srv2 conversation_id ''user'' question db of
        (Inl e, db1) \<Rightarrow> (Inl e, db1, vector_store)
      | (Inr _, db1) \<Rightarrow>
          (case add_message srv3 srv4 conversation_id ''assistant'' answer db1 of
             (Inl e, db2) \<Rightarrow> (Inl e, db2, vector_store)
           | (Inr _, db2) \<Rightarrow>
               (if should_store_in_vector_memory question answer then
                  (case embed_text question of
                     Inl e \<Rightarrow> (Inl e, db2, vector_store)
                   | Inr q_emb \<Rightarrow>
                       (case add question answer q_emb vector_store of
                          (r, vs') \<Rightarrow> (r, db2, vs')))
                else (Inr (), db2, vector_store))))"

section \<open>Properties of the retention heuristic\<close>

lemma small_talk_rejected:
  assumes "p \<in> set small_talk_prefixes" and "prefix p (lower (strip question))"
  shows "\<not> should_store_in_vector_memory question answer"
  using assms
  by (auto simp: should_store_in_vector_memory_def Let_def list_ex_iff startswith_def)

lemma should_store_iff:
  "should_store_in_vector_memory question answer \<longleftrightarrow>
     \<not> (\<exists>p \<in> set small_talk_prefixes. prefix p (lower (strip question)))
     \<and> \<not> (length (split question) < 4 \<or> length (split answer) < 6)"
  by (auto simp: should_store_in_vector_memory_def Let_def list_ex_iff startswith_def)

text \<open>
  Claim C4. \<open>should_store_in_vector_memory\<close> is false when the lowercased, trimmed
  question begins with a small-talk marker, false when the question has fewer than 4
  whitespace-delimited words or the answer fewer than 6, and true otherwise; the three
  exchanges named by the spec evaluate to false, true and false.
\<close>

theorem retention_policy:
  "((\<exists>p \<in> set small_talk_prefixes. prefix p (lower (strip question)))
      \<longrightarrow> \<not> should_store_in_vector_memory question answer)
   \<and> (length (split question) < 4 \<or> length (split answer) < 6
      \<longrightarrow> \<not> should_store_in_vector_memory question answer)
   \<and> (\<not> (\<exists>p \<in> set small_talk_prefixes. prefix p (lower (strip question)))
      \<and> \<not> (length (split question) < 4 \<or> length (split answer) < 6)
      \<longrightarrow> should_store_in_vector_memory question answer)
   \<and> \<not> should_store_in_vector_memory ''Hi'' ''Hello!''
   \<and> should_store_in_vector_memory ''What is machine learning and how does it work?''
        ''Machine learning is a subset of AI that enables systems to learn from data.''
   \<and> \<not> should_store_in_vector_memory ''ok'' ''Great, glad that helped a lot today''"
proof -
  have ex1: "\<not> should_store_in_vector_memory ''Hi'' ''Hello!''"
    by code_simp
  have ex2: "should_store_in_vector_memory ''What is machine learning and how does it work?''
        ''Machine learning is a subset of AI that enables systems to learn from data.''"
    by code_simp
  have ex3: "\<not> should_store_in_vector_memory ''ok'' ''Great, glad that helped a lot today''"
    by code_simp
  show ?thesis
    using ex1 ex2 ex3 should_store_iff [of question answer] by blast
qed

theorem retention_policy_witness:
  "\<not> (\<exists>p \<in> set small_talk_prefixes. prefix p (lower (strip ''How do neural networks work?'')))
   \<and> \<not> (length (split ''How do neural networks work?'') < 4
          \<or> length (split ''Neural networks consist of interconnected layers of nodes.'') < 6)
   \<and> should_store_in_vector_memory ''How do neural networks work?''
        ''Neural networks consist of interconnected layers of nodes.''
   \<and> (\<exists>p \<in> set small_talk_prefixes. prefix p (lower (strip '' Thanks a lot for that '')))
   \<and> \<not> should_store_in_vector_memory '' Thanks a lot for that '' ''You are very welcome, any time at all''
   \<and> length (split ''What is Python?'') < 4
   \<and> \<not> should_store_in_vector_memory ''What is Python?'' ''Python is a programming language used widely.''"
proof -
  have h1: "\<not> (\<exists>p \<in> set small_talk_prefixes. prefix p (lower (strip ''How do neural networks work?'')))"
    by code_simp
  have h2: "\<not> (length (split ''How do neural networks work?'') < 4
          \<or> length (split ''Neural networks consist of interconnected layers of nodes.'') < 6)"
    by code_simp
  have h3: "\<exists>p \<in> set small_talk_prefixes. prefix p (lower (strip '' Thanks a lot for that ''))"
    by code_simp
  have h4: "length (split ''What is Python?'') < 4"
    by code_simp
  show ?thesis
    using h1 h2 h3 h4
      retention_policy [of "''How do neural networks work?''"
        "''Neural networks consist of interconnected layers of nodes.''"]
      retention_policy [of "'' Thanks a lot for that ''" "''You are very welcome, any time at all''"]
      retention_policy [of "''What is Python?''" "''Python is a programming language used widely.''"]
    by blast
qed

text \<open>
  Claim C10. The small-talk test is a character-prefix test on the trimmed, lowercased
  question: whatever the answer and the word counts, a question that begins with one of
  the eleven literal markers is rejected, so a question starting with the word
  \<open>History\<close> or \<open>Okra\<close> is rejected too.
\<close>

theorem small_talk_is_prefix_test:
  "small_talk_prefixes =
     [''hi'', ''hello'', ''hey'', ''good morning'', ''good evening'',
      ''thanks'', ''thank you'', ''ok'', ''okay'', ''bye'', ''goodbye'']
   \<and> (\<forall>p \<in> set [''hi'', ''hello'', ''hey'', ''good morning'', ''good evening'',
                  ''thanks'', ''thank you'', ''ok'', ''okay'', ''bye'', ''goodbye''].
        prefix p (lower (strip question)) \<longrightarrow> \<not> should_store_in_vector_memory question answer)
   \<and> \<not> should_store_in_vector_memory
         ''History of the Roman Empire: what caused its decline and fall?'' answer
   \<and> \<not> should_store_in_vector_memory
         ''Okra is a vegetable, so how should I cook it well?'' answer"
proof -
  have a: "prefix ''hi'' (lower (strip ''History of the Roman Empire: what caused its decline and fall?''))"
    by code_simp
  have b: "prefix ''ok'' (lower (strip ''Okra is a vegetable, so how should I cook it well?''))"
    by code_simp
  have c: "''hi'' \<in> set small_talk_prefixes" "''ok'' \<in> set small_talk_prefixes"
    by (simp_all add: small_talk_prefixes_def)
  show ?thesis
    using small_talk_rejected [OF c(1) a] small_talk_rejected [OF c(2) b]
    by (auto simp: small_talk_prefixes_def [symmetric] dest: small_talk_rejected)
qed

theorem small_talk_is_prefix_test_witness:
  "''hey'' \<in> set [''hi'', ''hello'', ''hey'', ''good morning'', ''good evening'',
                  ''thanks'', ''thank you'', ''ok'', ''okay'', ''bye'', ''goodbye'']
   \<and> prefix ''hey'' (lower (strip ''  Heyting algebras: how do they differ from Boolean ones?''))
   \<and> 4 \<le> length (split ''  Heyting algebras: how do they differ from Boolean ones?'')
   \<and> 6 \<le> length (split ''They drop the law of the excluded middle.'')
   \<and> \<not> should_store_in_vector_memory
         ''  Heyting algebras: how do they differ from Boolean ones?''
         ''They drop the law of the excluded middle.''"
proof -
  have h1: "''hey'' \<in> set [''hi'', ''hello'', ''hey'', ''good morning'', ''good evening'',
                  ''thanks'', ''thank you'', ''ok'', ''okay'', ''bye'', ''goodbye'']"
    by simp
  have h2: "prefix ''hey'' (lower (strip ''  Heyting algebras: how do they differ from Boolean ones?''))"
    by code_simp
  have h3: "4 \<le> length (split ''  Heyting algebras: how do they differ from Boolean ones?'')"
    by code_simp
  have h4: "6 \<le> length (split ''They drop the law of the excluded middle.'')"
    by code_simp
  show ?thesis
    using h1 h2 h3 h4
      small_talk_is_prefix_test [of "''  Heyting algebras: how do they differ from Boolean ones?''"
        "''They drop the law of the excluded middle.''"]
    by blast
qed

text \<open>
  The no-break space separates words and is trimmed, as in Python: four words joined by
  it are four words, and a greeting behind a leading one is still a greeting.
\<close>

lemma no_break_space_examples:
  "should_store_in_vector_memory
     (''What'' @ [CHR 0xA0] @ ''is'' @ [CHR 0xA0] @ ''machine'' @ [CHR 0xA0] @ ''learning?'')
     ''Machine learning is a subset of AI that enables systems to learn from data.''"
  "\<not> should_store_in_vector_memory ([CHR 0xA0] @ ''Hi there how are you'')
     ''Machine learning is a subset of AI that enables systems to learn from data.''"
  by code_simp+

section \<open>Properties of the budget selectors\<close>

lemma qa_loop_acc:
  "qa_loop ct B ps sel tot = sel @ qa_loop ct B ps [] tot"
proof (induction ps arbitrary: sel tot)
  case Nil
  then show ?case by simp
next
  case (Cons p ps)
  obtain q a where p: "p = (q, a)" by (cases p)
  show ?case
    using Cons.IH [of "sel @ [(q, a)]"] Cons.IH [of "[(q, a)]"]
    by (simp add: p Let_def)
qed

lemma qa_loop_prefix: "prefix (qa_loop ct B ps [] tot) ps"
proof (induction ps arbitrary: tot)
  case Nil
  then show ?case by simp
next
  case (Cons p ps)
  obtain q a where p: "p = (q, a)" by (cases p)
  show ?case
    using Cons.IH qa_loop_acc [of ct B ps "[(q, a)]"]
    by (simp add: p Let_def)
qed

lemma qa_tokens_nonneg: "0 \<le> qa_tokens ct ps"
  by (induction ps) (auto simp: qa_tokens_def)

lemma qa_loop_all:
  "tot + qa_tokens ct ps \<le> B \<Longrightarrow> qa_loop ct B ps [] tot = ps"
proof (induction ps arbitrary: tot)
  case Nil
  then show ?case by simp
next
  case (Cons p ps)
  obtain q a where p: "p = (q, a)" by (cases p)
  have nn: "0 \<le> qa_tokens ct ps" by (rule qa_tokens_nonneg)
  have split: "qa_tokens ct (p # ps) = int (ct (pair_text q a)) + qa_tokens ct ps"
    by (simp add: qa_tokens_def p)
  have fits: "\<not> tot + int (ct (pair_text q a)) > B"
    using Cons.prems nn split by linarith
  have rest: "qa_loop ct B ps [] (tot + int (ct (pair_text q a))) = ps"
    using Cons.prems split by (intro Cons.IH) linarith
  show ?case
    using fits rest qa_loop_acc [of ct B ps "[(q, a)]"]
    by (simp add: p Let_def)
qed

lemma qa_loop_within:
  "qa_loop ct B ps [] tot = [] \<or> tot + qa_tokens ct (qa_loop ct B ps [] tot) \<le> B"
proof (induction ps arbitrary: tot)
  case Nil
  then show ?case by simp
next
  case (Cons p ps)
  obtain q a where p: "p = (q, a)" by (cases p)
  let ?c = "int (ct (pair_text q a))"
  show ?case
  proof (cases "tot + ?c > B")
    case True
    then show ?thesis by (simp add: p Let_def)
  next
    case False
    have eq: "qa_loop ct B (p # ps) [] tot = (q, a) # qa_loop ct B ps [] (tot + ?c)"
      using False qa_loop_acc [of ct B ps "[(q, a)]"] by (simp add: p Let_def)
    have "tot + qa_tokens ct ((q, a) # qa_loop ct B ps [] (tot + ?c)) \<le> B"
    proof (cases "qa_loop ct B ps [] (tot + ?c) = []")
      case True
      then show ?thesis using False by (simp add: qa_tokens_def)
    next
      case False
      then have "tot + ?c + qa_tokens ct (qa_loop ct B ps [] (tot + ?c)) \<le> B"
        using Cons.IH [of "tot + ?c"] by simp
      then show ?thesis by (simp add: qa_tokens_def)
    qed
    then show ?thesis by (simp add: eq)
  qed
qed

lemma qa_loop_stop:
  "length (qa_loop ct B ps [] tot) < length ps \<Longrightarrow>
     tot + qa_tokens ct (take (Suc (length (qa_loop ct B ps [] tot))) ps) > B"
proof (induction ps arbitrary: tot)
  case Nil
  then show ?case by simp
next
  case (Cons p ps)
  obtain q a where p: "p = (q, a)" by (cases p)
  let ?c = "int (ct (pair_text q a))"
  show ?case
  proof (cases "tot + ?c > B")
    case True
    then show ?thesis by (simp add: p Let_def qa_tokens_def)
  next
    case False
    have eq: "qa_loop ct B (p # ps) [] tot = (q, a) # qa_loop ct B ps [] (tot + ?c)"
      using False qa_loop_acc [of ct B ps "[(q, a)]"] by (simp add: p Let_def)
    have "length (qa_loop ct B ps [] (tot + ?c)) < length ps"
      using Cons.prems by (simp add: eq)
    from Cons.IH [OF this] show ?thesis
      unfolding eq by (simp add: p qa_tokens_def)
  qed
qed

text \<open>
  Claim C8. For every ranked pair list and budget, \<open>select_vector_qa_within_budget\<close>
  returns a prefix of the list, and applying it again to its own result with the same
  budget changes nothing. The scan stops at the first pair that would overflow: a
  non-empty result costs at most the budget, and when a pair is left out, the result
  extended by the next pair costs more than the budget.
\<close>

theorem select_vector_qa_prefix_idempotent:
  "prefix (select_vector_qa_within_budget ct P B) P
   \<and> select_vector_qa_within_budget ct (select_vector_qa_within_budget ct P B) B
       = select_vector_qa_within_budget ct P B
   \<and> (select_vector_qa_within_budget ct P B \<noteq> []
        \<longrightarrow> qa_tokens ct (select_vector_qa_within_budget ct P B) \<le> B)
   \<and> (length (select_vector_qa_within_budget ct P B) < length P
        \<longrightarrow> B < qa_tokens ct (take (Suc (length (select_vector_qa_within_budget ct P B))) P))"
proof -
  let ?r = "select_vector_qa_within_budget ct P B"
  have pre: "prefix ?r P"
    unfolding select_vector_qa_within_budget_def by (rule qa_loop_prefix)
  have within: "?r = [] \<or> qa_tokens ct ?r \<le> B"
    using qa_loop_within [of ct B P 0] by (simp add: select_vector_qa_within_budget_def)
  have idem: "select_vector_qa_within_budget ct ?r B = ?r"
  proof (cases "?r = []")
    case True
    then show ?thesis by (simp add: select_vector_qa_within_budget_def)
  next
    case False
    then have "0 + qa_tokens ct ?r \<le> B" using within by simp
    then have "qa_loop ct B ?r [] 0 = ?r" by (rule qa_loop_all)
    then show ?thesis by (simp add: select_vector_qa_within_budget_def)
  qed
  have stop: "length ?r < length P \<longrightarrow> B < qa_tokens ct (take (Suc (length ?r)) P)"
    using qa_loop_stop [of ct B P 0] by (simp add: select_vector_qa_within_budget_def)
  show ?thesis using pre within idem stop by blast
qed

theorem select_vector_qa_prefix_idempotent_witness:
  "select_vector_qa_within_budget length [(''aa'', ''bb''), (''cccc'', ''dddd''), (''e'', ''f'')] 30
     = [(''aa'', ''bb''), (''cccc'', ''dddd'')]
   \<and> qa_tokens length [(''aa'', ''bb''), (''cccc'', ''dddd'')] \<le> 30
   \<and> 30 < qa_tokens length [(''aa'', ''bb''), (''cccc'', ''dddd''), (''e'', ''f'')]
   \<and> select_vector_qa_within_budget length [(''aa'', ''bb''), (''cccc'', ''dddd'')] 30
     = [(''aa'', ''bb''), (''cccc'', ''dddd'')]"
proof -
  have r: "select_vector_qa_within_budget length [(''aa'', ''bb''), (''cccc'', ''dddd''), (''e'', ''f'')] 30
     = [(''aa'', ''bb''), (''cccc'', ''dddd'')]"
    by (simp add: select_vector_qa_within_budget_def pair_text_def newline_def)
  show ?thesis
    using select_vector_qa_prefix_idempotent
      [of length "[(''aa'', ''bb''), (''cccc'', ''dddd''), (''e'', ''f'')]" 30]
    unfolding r by simp
qed

lemma foldl_add_sum:
  "foldl (\<lambda>tot x. tot + f x) (a::int) xs = a + sum_list (map f xs)"
  by (induction xs arbitrary: a) simp_all

lemma count_message_list_tokens_Cons:
  "count_message_list_tokens ct (m # ms) =
     count_message_list_tokens ct [m] + count_message_list_tokens ct ms"
  by (simp add: count_message_list_tokens_def foldl_add_sum)

lemma count_message_list_tokens_append:
  "count_message_list_tokens ct (xs @ ys) =
     count_message_list_tokens ct xs + count_message_list_tokens ct ys"
  by (simp add: count_message_list_tokens_def foldl_add_sum)

lemma count_message_list_tokens_nonneg: "0 \<le> count_message_list_tokens ct ms"
  by (auto simp: count_message_list_tokens_def foldl_add_sum intro!: sum_list_nonneg)

lemma count_message_list_tokens_rev:
  "count_message_list_tokens ct (rev ms) = count_message_list_tokens ct ms"
  by (simp add: count_message_list_tokens_def foldl_add_sum rev_map [symmetric])

lemma has_role_content:
  assumes "{''role'', ''content''} \<subseteq> dom msg"
  shows "\<exists>r c. msg ''role'' = Some r \<and> msg ''content'' = Some c"
proof -
  have r: "''role'' \<in> dom msg" and c: "''content'' \<in> dom msg"
    using assms by simp_all
  from domD [OF r] obtain rv where rv: "msg ''role'' = Some rv" ..
  from domD [OF c] obtain cv where cv: "msg ''content'' = Some cv" ..
  show ?thesis using rv cv by simp
qed

lemma clean_msg_role_content:
  assumes "{''role'', ''content''} \<subseteq> dom msg"
  shows "clean_msg msg = Inr (role_content msg)"
proof -
  obtain r c where r: "msg ''role'' = Some r" and c: "msg ''content'' = Some c"
    using has_role_content [OF assms] by (elim exE conjE)
  have "[''role'' \<mapsto> r, ''content'' \<mapsto> c] = msg |` {''role'', ''content''}"
  proof (rule ext)
    fix k
    show "[''role'' \<mapsto> r, ''content'' \<mapsto> c] k = (msg |` {''role'', ''content''}) k"
      by (cases "k = ''role''"; cases "k = ''content''") (simp_all add: restrict_map_def r c)
  qed
  then show ?thesis
    by (simp add: clean_msg_def r c role_content_def)
qed

lemma restrict_map_own_dom: "m |` dom m = m"
  by (rule ext) (simp add: restrict_map_def domIff)

lemma role_content_turn:
  assumes d: "dom msg = {''role'', ''content''}"
  shows "role_content msg = msg"
  unfolding role_content_def d [symmetric] by (rule restrict_map_own_dom)

lemma recent_loop_stop:
  "tot + count_message_list_tokens ct [m] > B \<Longrightarrow> recent_loop ct B (m # ms) sel tot = Inr sel"
  by (simp add: Let_def)

lemma recent_loop_take:
  assumes "\<forall>m \<in> set ms. {''role'', ''content''} \<subseteq> dom m"
  shows "\<exists>n \<le> length ms. recent_loop ct B ms sel tot = Inr (sel @ map role_content (take n ms))"
  using assms
proof (induction ms arbitrary: sel tot)
  case Nil
  then show ?case by simp
next
  case (Cons m ms)
  show ?case
  proof (cases "tot + count_message_list_tokens ct [m] > B")
    case True
    then have "recent_loop ct B (m # ms) sel tot = Inr (sel @ map role_content (take 0 (m # ms)))"
      by (simp add: Let_def)
    then show ?thesis by blast
  next
    case False
    have cm: "clean_msg m = Inr (role_content m)"
      using Cons.prems by (intro clean_msg_role_content) simp
    obtain n where n: "n \<le> length ms"
      "recent_loop ct B ms (sel @ [role_content m]) (tot + count_message_list_tokens ct [m])
         = Inr ((sel @ [role_content m]) @ map role_content (take n ms))"
      using Cons.IH [of "sel @ [role_content m]" "tot + count_message_list_tokens ct [m]"]
        Cons.prems by auto
    have "recent_loop ct B (m # ms) sel tot
            = Inr (sel @ map role_content (take (Suc n) (m # ms)))"
      using False cm n(2) by (simp add: Let_def)
    moreover have "Suc n \<le> length (m # ms)" using n(1) by simp
    ultimately show ?thesis by blast
  qed
qed

lemma recent_loop_all:
  assumes "\<forall>m \<in> set ms. {''role'', ''content''} \<subseteq> dom m"
    and "tot + count_message_list_tokens ct ms \<le> B"
  shows "recent_loop ct B ms sel tot = Inr (sel @ map role_content ms)"
  using assms
proof (induction ms arbitrary: sel tot)
  case Nil
  then show ?case by simp
next
  case (Cons m ms)
  have cm: "clean_msg m = Inr (role_content m)"
    using Cons.prems(1) by (intro clean_msg_role_content) simp
  have sum: "count_message_list_tokens ct (m # ms)
               = count_message_list_tokens ct [m] + count_message_list_tokens ct ms"
    by (rule count_message_list_tokens_Cons)
  have nn: "0 \<le> count_message_list_tokens ct ms"
    by (rule count_message_list_tokens_nonneg)
  have fits: "\<not> tot + count_message_list_tokens ct [m] > B"
    using Cons.prems(2) sum nn by linarith
  have "recent_loop ct B ms (sel @ [role_content m]) (tot + count_message_list_tokens ct [m])
          = Inr ((sel @ [role_content m]) @ map role_content ms)"
    using Cons.prems sum by (intro Cons.IH) auto
  then show ?case
    using fits cm by (simp add: Let_def)
qed

text \<open>
  Claim C2, as amended. For every history whose messages have a \<open>role\<close> and a
  \<open>content\<close>, and every budget, \<open>select_recent_messages_within_budget\<close> returns the
  role-and-content copies of a contiguous suffix of the history; it returns the copies of
  the whole history when the budget covers its total cost, and nothing when the budget is
  below the cost of the most recent message alone (that message is dropped, not cut). For
  messages that have exactly the two fields the copies equal the messages, and the result
  is a suffix of the history itself.
\<close>

theorem select_recent_role_content_suffix:
  assumes "\<forall>m \<in> set H. {''role'', ''content''} \<subseteq> dom m"
  shows "(\<exists>k \<le> length H.
            select_recent_messages_within_budget ct H B = Inr (map role_content (drop k H)))
         \<and> (count_message_list_tokens ct H \<le> B
              \<longrightarrow> select_recent_messages_within_budget ct H B = Inr (map role_content H))
         \<and> (H \<noteq> [] \<and> B < count_message_list_tokens ct [last H]
              \<longrightarrow> select_recent_messages_within_budget ct H B = Inr [])
         \<and> ((\<forall>m \<in> set H. dom m = {''role'', ''content''})
              \<longrightarrow> (\<exists>r. select_recent_messages_within_budget ct H B = Inr r \<and> suffix r H))"
proof -
  have keys: "\<forall>m \<in> set (rev H). {''role'', ''content''} \<subseteq> dom m"
    using assms by simp
  obtain n where n: "n \<le> length H"
    "recent_loop ct B (rev H) [] 0 = Inr ([] @ map role_content (take n (rev H)))"
    using recent_loop_take [OF keys, of ct B "[]" 0] by auto
  have "rev (map role_content (take n (rev H))) = map role_content (drop (length H - n) H)"
    by (simp add: rev_map rev_take)
  then have sel: "select_recent_messages_within_budget ct H B
                    = Inr (map role_content (drop (length H - n) H))"
    using n(2) by (simp add: select_recent_messages_within_budget_def)
  have part1: "\<exists>k \<le> length H.
      select_recent_messages_within_budget ct H B = Inr (map role_content (drop k H))"
    using sel by (intro exI [of _ "length H - n"]) simp
  have part2: "select_recent_messages_within_budget ct H B = Inr (map role_content H)"
    if "count_message_list_tokens ct H \<le> B"
  proof -
    have "0 + count_message_list_tokens ct (rev H) \<le> B"
      using that by (simp add: count_message_list_tokens_rev)
    from recent_loop_all [OF keys this, of "[]"]
    show ?thesis
      by (simp add: select_recent_messages_within_budget_def rev_map [symmetric])
  qed
  have part3: "select_recent_messages_within_budget ct H B = Inr []"
    if ne: "H \<noteq> []" and big: "B < count_message_list_tokens ct [last H]"
  proof -
    have "\<exists>ms. rev H = last H # ms"
      using ne by (cases H rule: rev_cases) simp_all
    then obtain ms where ms: "rev H = last H # ms" ..
    have "recent_loop ct B (last H # ms) [] 0 = Inr []"
      using big by (intro recent_loop_stop) simp
    then show ?thesis
      by (simp add: select_recent_messages_within_budget_def ms)
  qed
  have part4: "\<exists>r. select_recent_messages_within_budget ct H B = Inr r \<and> suffix r H"
    if "\<forall>m \<in> set H. dom m = {''role'', ''content''}"
  proof -
    have "\<forall>m \<in> set (drop (length H - n) H). role_content m = m"
    proof
      fix m assume "m \<in> set (drop (length H - n) H)"
      then have "m \<in> set H" by (rule in_set_dropD)
      with that have "dom m = {''role'', ''content''}" by (rule bspec)
      then show "role_content m = m" by (rule role_content_turn)
    qed
    then have "map role_content (drop (length H - n) H) = drop (length H - n) H"
      by (simp add: map_idI)
    then show ?thesis
      using sel by (simp add: suffix_drop)
  qed
  show ?thesis
  proof (intro conjI impI)
    show "\<exists>k \<le> length H.
      select_recent_messages_within_budget ct H B = Inr (map role_content (drop k H))"
      by (rule part1)
    show "select_recent_messages_within_budget ct H B = Inr (map role_content H)"
      if "count_message_list_tokens ct H \<le> B"
      using that by (rule part2)
    show "select_recent_messages_within_budget ct H B = Inr []"
      if "H \<noteq> [] \<and> B < count_message_list_tokens ct [last H]"
      using that part3 by simp
    show "\<exists>r. select_recent_messages_within_budget ct H B = Inr r \<and> suffix r H"
      if "\<forall>m \<in> set H. dom m = {''role'', ''content''}"
      using that by (rule part4)
  qed
qed


theorem select_recent_role_content_suffix_witness:
  "dom [''content'' \<mapsto> ''What is Python?'', ''role'' \<mapsto> ''user''] = {''role'', ''content''}
   \<and> dom [''content'' \<mapsto> ''A programming language.'', ''role'' \<mapsto> ''assistant'']
       = {''role'', ''content''}
   \<and> count_message_list_tokens length
         [[''content'' \<mapsto> ''What is Python?'', ''role'' \<mapsto> ''user''],
          [''content'' \<mapsto> ''A programming language.'', ''role'' \<mapsto> ''assistant'']] \<le> 1200
   \<and> select_recent_messages_within_budget length
         [[''content'' \<mapsto> ''What is Python?'', ''role'' \<mapsto> ''user''],
          [''content'' \<mapsto> ''A programming language.'', ''role'' \<mapsto> ''assistant'']] 1200
       = Inr (map role_content
         [[''content'' \<mapsto> ''What is Python?'', ''role'' \<mapsto> ''user''],
          [''content'' \<mapsto> ''A programming language.'', ''role'' \<mapsto> ''assistant'']])
   \<and> (\<exists>r. select_recent_messages_within_budget length
         [[''content'' \<mapsto> ''What is Python?'', ''role'' \<mapsto> ''user''],
          [''content'' \<mapsto> ''A programming language.'', ''role'' \<mapsto> ''assistant'']] 1200
         = Inr r
       \<and> suffix r
         [[''content'' \<mapsto> ''What is Python?'', ''role'' \<mapsto> ''user''],
          [''content'' \<mapsto> ''A programming language.'', ''role'' \<mapsto> ''assistant'']])
   \<and> 20 < count_message_list_tokens length
         [last [[''content'' \<mapsto> ''What is Python?'', ''role'' \<mapsto> ''user''],
          [''content'' \<mapsto> ''A programming language.'', ''role'' \<mapsto> ''assistant'']]]
   \<and> select_recent_messages_within_budget length
         [[''content'' \<mapsto> ''What is Python?'', ''role'' \<mapsto> ''user''],
          [''content'' \<mapsto> ''A programming language.'', ''role'' \<mapsto> ''assistant'']] 20
       = Inr []"
proof -
  let ?H = "[[''content'' \<mapsto> ''What is Python?'', ''role'' \<mapsto> ''user''],
             [''content'' \<mapsto> ''A programming language.'', ''role'' \<mapsto> ''assistant'']]"
  have keys: "\<forall>m \<in> set ?H. {''role'', ''content''} \<subseteq> dom m"
    by simp
  have turns: "\<forall>m \<in> set ?H. dom m = {''role'', ''content''}"
    by simp
  have fits: "count_message_list_tokens length ?H \<le> 1200"
    by (simp add: count_message_list_tokens_def dict_get_def newline_def)
  have ne: "?H \<noteq> []"
    by simp
  have big: "20 < count_message_list_tokens length [last ?H]"
    by (simp add: count_message_list_tokens_def dict_get_def newline_def)
  note large = select_recent_role_content_suffix [OF keys, of length 1200]
  note small = select_recent_role_content_suffix [OF keys, of length 20]
  have all: "select_recent_messages_within_budget length ?H 1200 = Inr (map role_content ?H)"
    using large [THEN conjunct2, THEN conjunct1] fits by (rule mp)
  have suf: "\<exists>r. select_recent_messages_within_budget length ?H 1200 = Inr r \<and> suffix r ?H"
    using large [THEN conjunct2, THEN conjunct2, THEN conjunct2] turns by (rule mp)
  have none: "select_recent_messages_within_budget length ?H 20 = Inr []"
    using small [THEN conjunct2, THEN conjunct2, THEN conjunct1] conjI [OF ne big] by (rule mp)
  show ?thesis
    by (intro conjI) (simp, simp, (rule fits all suf big none)+)
qed

text \<open>
  The result is not always a suffix of the history as given: a row that the database
  returns has a \<open>timestamp\<close> field, and the selected copy has lost it.
\<close>

theorem select_recent_drops_fields_counterexample:
  "get_messages Serving
     \<lparr>now = 7, conversations = [(''c1'', ''hi'')],
      messages = [\<lparr>row_conversation_id = ''c1'', row_role = ''user'',
                   row_content = ''hi'', row_timestamp = 7\<rparr>]\<rparr> ''c1''
     = Inr [[''role'' \<mapsto> ''user'', ''content'' \<mapsto> ''hi'', ''timestamp'' \<mapsto> ''7'']]
   \<and> count_message_list_tokens length
        [[''role'' \<mapsto> ''user'', ''content'' \<mapsto> ''hi'', ''timestamp'' \<mapsto> ''7'']] \<le> 1200
   \<and> select_recent_messages_within_budget length
        [[''role'' \<mapsto> ''user'', ''content'' \<mapsto> ''hi'', ''timestamp'' \<mapsto> ''7'']] 1200
     = Inr [[''role'' \<mapsto> ''user'', ''content'' \<mapsto> ''hi'']]
   \<and> [[''role'' \<mapsto> ''user'', ''content'' \<mapsto> ''hi'']]
     \<noteq> [[''role'' \<mapsto> ''user'', ''content'' \<mapsto> ''hi'', ''timestamp'' \<mapsto> ''7'']]
   \<and> \<not> suffix [[''role'' \<mapsto> ''user'', ''content'' \<mapsto> ''hi'']]
        [[''role'' \<mapsto> ''user'', ''content'' \<mapsto> ''hi'', ''timestamp'' \<mapsto> ''7'']]"
proof -
  let ?row = "[''role'' \<mapsto> ''user'', ''content'' \<mapsto> ''hi'', ''timestamp'' \<mapsto> ''7'']"
  let ?turn = "[''role'' \<mapsto> ''user'', ''content'' \<mapsto> ''hi'']"
  have db: "get_messages Serving
     \<lparr>now = 7, conversations = [(''c1'', ''hi'')],
      messages = [\<lparr>row_conversation_id = ''c1'', row_role = ''user'',
                   row_content = ''hi'', row_timestamp = 7\<rparr>]\<rparr> ''c1'' = Inr [?row]"
    by (simp add: get_messages_def digit_char_def)
  have cost: "count_message_list_tokens length [?row] \<le> 1200"
    by (simp add: count_message_list_tokens_def dict_get_def newline_def)
  have sel: "select_recent_messages_within_budget length [?row] 1200 = Inr [?turn]"
    by (simp add: select_recent_messages_within_budget_def clean_msg_def
        count_message_list_tokens_def dict_get_def newline_def)
  have "?turn ''timestamp'' \<noteq> ?row ''timestamp''"
    by simp
  then have ne: "?turn \<noteq> ?row"
    by (rule contrapos_nn) (rule arg_cong [of _ _ "\<lambda>m. m ''timestamp''"])
  have nsuf: "\<not> suffix [?turn] [?row]"
    using ne by (simp add: suffix_Cons)
  show ?thesis
    using db cost sel ne nsuf by simp
qed

section \<open>Properties of the semantic store\<close>

lemma length_normalize_L2: "length (normalize_L2 v) = length v"
  by (simp add: normalize_L2_def Let_def)

lemma add_first:
  assumes "index s = None"
  shows "add q a e s =
           (Inr (), s\<lparr>dim := Some (length e),
                       index := Some \<lparr>index_d = length e, index_xb = [normalize_L2 e]\<rparr>,
                       questions := questions s @ [q], answers := answers s @ [a]\<rparr>)"
  using assms
  by (simp add: add_def Let_def new_IndexFlatIP_def index_add_def length_normalize_L2)

lemma add_same_dim:
  assumes "index s = Some ix" and "length e = index_d ix"
  shows "add q a e s =
           (Inr (), s\<lparr>index := Some (ix\<lparr>index_xb := index_xb ix @ [normalize_L2 e]\<rparr>),
                       questions := questions s @ [q], answers := answers s @ [a]\<rparr>)"
  using assms
  by (simp add: add_def Let_def index_add_def length_normalize_L2)

lemma add_other_dim:
  assumes "index s = Some ix" and "length e \<noteq> index_d ix"
  shows "add q a e s = (Inl AssertionError, s)"
  using assms
  by (simp add: add_def Let_def index_add_def length_normalize_L2)

lemma store_inv_init: "store_inv FaissQAVectorStore_init"
  by (simp add: store_inv_def FaissQAVectorStore_init_def)

lemma store_inv_add:
  assumes "store_inv s"
  shows "store_inv (snd (add q a e s))"
proof (cases "index s")
  case None
  then show ?thesis
    using assms by (simp add: add_first store_inv_def ntotal_def length_normalize_L2)
next
  case (Some ix)
  show ?thesis
  proof (cases "length e = index_d ix")
    case True
    then show ?thesis
      using assms Some
      by (simp add: add_same_dim [OF Some True] store_inv_def ntotal_def length_normalize_L2)
  next
    case False
    then show ?thesis
      using assms by (simp add: add_other_dim [OF Some False])
  qed
qed

lemma run_snoc: "run (calls @ [c]) = step (run calls) c"
  by (simp add: run_def)

lemma store_inv_run: "store_inv (run calls)"
proof (induction calls rule: rev_induct)
  case Nil
  then show ?case by (simp add: run_def store_inv_init)
next
  case (snoc c calls)
  then show ?case
    by (cases c) (simp_all add: run_snoc store_inv_add)
qed

lemma store_inv_sizes:
  assumes "store_inv s"
  shows "index_ntotal s = length (questions s)" and "length (answers s) = length (questions s)"
  using assms by (auto simp: store_inv_def index_ntotal_def split: option.splits)

text \<open>Positions inside both lists are read without an error.\<close>

lemma collect_results_in_range:
  assumes "\<forall>i \<in> set is. i < length qs" and "length ans = length qs"
  shows "collect_results qs ans (map int is) = Inr (map (\<lambda>i. (qs ! i, ans ! i)) is)"
  using assms by (induction "is") (simp_all add: getitem_def)

lemma set_ranked: "set (ranked tie ix x) = {0..<ntotal ix}"
  by (simp add: ranked_def)

lemma length_ranked: "length (ranked tie ix x) = ntotal ix"
  by (simp add: ranked_def)

lemma index_search_no_padding:
  assumes "length x = index_d ix" and "1 \<le> k" and "k \<le> int (ntotal ix)"
  shows "index_search tie ix x k = Inr (map int (take (nat k) (ranked tie ix x)))"
  using assms by (simp add: index_search_def)

lemma search_nonempty:
  assumes inv: "store_inv s" and ix: "index s = Some ix" and ne: "ntotal ix \<noteq> 0"
    and len: "length qe = index_d ix" and k: "1 \<le> top_k"
  shows "search tie s qe top_k =
           Inr (map (\<lambda>i. (questions s ! i, answers s ! i))
                  (take (nat (min top_k (int (ntotal ix)))) (ranked tie ix (normalize_L2 qe))))"
proof -
  let ?k = "min top_k (int (ntotal ix))"
  let ?is = "take (nat ?k) (ranked tie ix (normalize_L2 qe))"
  have k1: "1 \<le> ?k" using k ne by simp
  have "index_search tie ix (normalize_L2 qe) ?k = Inr (map int ?is)"
    using len k1 by (intro index_search_no_padding) (simp_all add: length_normalize_L2)
  moreover have "\<forall>i \<in> set ?is. i < length (questions s)"
  proof
    fix i assume "i \<in> set ?is"
    then have "i \<in> set (ranked tie ix (normalize_L2 qe))" by (rule in_set_takeD)
    then have "i < ntotal ix" by (simp add: set_ranked)
    then show "i < length (questions s)"
      using inv ix by (simp add: store_inv_def)
  qed
  moreover have "length (answers s) = length (questions s)"
    using inv by (rule store_inv_sizes)
  ultimately show ?thesis
    using ix ne by (simp add: search_def is_empty_def Let_def collect_results_in_range)
qed

lemma search_cases:
  assumes inv: "store_inv s"
  shows "search tie s qe top_k = Inr []
         \<or> search tie s qe top_k = Inl AssertionError
         \<or> (\<exists>ix. index s = Some ix \<and> ntotal ix \<noteq> 0 \<and> length qe = index_d ix \<and> 1 \<le> top_k
              \<and> search tie s qe top_k =
                  Inr (map (\<lambda>i. (questions s ! i, answers s ! i))
                         (take (nat (min top_k (int (ntotal ix))))
                            (ranked tie ix (normalize_L2 qe)))))"
proof (cases "index s")
  case None
  then show ?thesis by (simp add: search_def is_empty_def)
next
  case (Some ix)
  show ?thesis
  proof (cases "ntotal ix = 0")
    case True
    then show ?thesis using Some by (simp add: search_def is_empty_def)
  next
    case ne: False
    show ?thesis
    proof (cases "length qe = index_d ix \<and> 1 \<le> top_k")
      case True
      then show ?thesis
        using search_nonempty [OF inv Some ne, of qe top_k] Some ne by simp
    next
      case False
      then have "index_search tie ix (normalize_L2 qe) (min top_k (int (ntotal ix))) = Inl AssertionError"
        by (auto simp: index_search_def length_normalize_L2)
      then show ?thesis
        using Some ne by (simp add: search_def is_empty_def Let_def)
    qed
  qed
qed


text \<open>
  Claim C5. After any sequence of \<open>add\<close> and \<open>search\<close> calls on a new store, the size of
  the index equals the number of stored questions and the number of stored answers, and
  every search reads its results from positions inside both lists: it never raises
  \<open>IndexError\<close>, and every pair it returns is a stored (question, answer) pair. This holds
  for every order \<open>tie\<close> among equal similarities.
\<close>

theorem index_size_matches_entries:
  "index_ntotal (run calls) = length (questions (run calls))
   \<and> length (questions (run calls)) = length (answers (run calls))
   \<and> search tie (run calls) qe top_k \<noteq> Inl IndexError
   \<and> (search tie (run calls) qe top_k = Inr rs
        \<longrightarrow> (\<forall>r \<in> set rs. \<exists>i < length (questions (run calls)).
               r = (questions (run calls) ! i, answers (run calls) ! i)))"
proof -
  let ?s = "run calls"
  have inv: "store_inv ?s" by (rule store_inv_run)
  have sizes: "index_ntotal ?s = length (questions ?s)" "length (answers ?s) = length (questions ?s)"
    using store_inv_sizes [OF inv] by simp_all
  have stored: "\<forall>r \<in> set rs. \<exists>i < length (questions ?s). r = (questions ?s ! i, answers ?s ! i)"
    if "search tie ?s qe top_k = Inr rs"
  proof -
    consider "search tie ?s qe top_k = Inr []" | "search tie ?s qe top_k = Inl AssertionError"
      | ix where "index ?s = Some ix"
          "search tie ?s qe top_k =
             Inr (map (\<lambda>i. (questions ?s ! i, answers ?s ! i))
                    (take (nat (min top_k (int (ntotal ix)))) (ranked tie ix (normalize_L2 qe))))"
      using search_cases [OF inv, of tie qe top_k] by blast
    then show ?thesis
    proof cases
      case 1
      then show ?thesis using that by simp
    next
      case 2
      then show ?thesis using that by simp
    next
      case 3
      have n: "ntotal ix = length (questions ?s)"
        using inv 3(1) by (simp add: store_inv_def)
      have rs: "rs = map (\<lambda>i. (questions ?s ! i, answers ?s ! i))
                    (take (nat (min top_k (int (ntotal ix)))) (ranked tie ix (normalize_L2 qe)))"
        using 3(2) that by simp
      show ?thesis
      proof
        fix r assume "r \<in> set rs"
        then obtain i where i: "i \<in> set (take (nat (min top_k (int (ntotal ix))))
                                        (ranked tie ix (normalize_L2 qe)))"
          and r: "r = (questions ?s ! i, answers ?s ! i)"
          unfolding rs by auto
        from i have "i \<in> set (ranked tie ix (normalize_L2 qe))" by (rule in_set_takeD)
        then have "i < length (questions ?s)" by (simp add: set_ranked n)
        then show "\<exists>i < length (questions ?s). r = (questions ?s ! i, answers ?s ! i)"
          using r by blast
      qed
    qed
  qed
  have noerr: "search tie ?s qe top_k \<noteq> Inl IndexError"
    using search_cases [OF inv, of tie qe top_k] by auto
  show ?thesis
    using sizes noerr stored by simp
qed

lemma upt_two: "[0..<2] = [0, 1]"
  by (simp add: upt_rec)

lemma run_example:
  "run [Add ''q1'' ''a1'' [1, 0], Search [1, 0] 5, Add ''q2'' ''a2'' [0, 2],
        Add ''q3'' ''a3'' [1, 0, 0]]
   = \<lparr>questions = [''q1'', ''q2''], answers = [''a1'', ''a2''],
      index = Some \<lparr>index_d = 2, index_xb = [[1, 0], [0, 1]]\<rparr>, dim = Some 2\<rparr>"
  by (simp add: run_def add_def FaissQAVectorStore_init_def new_IndexFlatIP_def index_add_def
      normalize_L2_def fvec_norm_L2sqr_def)

lemma search_example:
  "search (\<lambda>sims i. i) \<lparr>questions = [''q1'', ''q2''], answers = [''a1'', ''a2''],
            index = Some \<lparr>index_d = 2, index_xb = [[1, 0], [0, 1]]\<rparr>, dim = Some 2\<rparr> [0, 3] 5
   = Inr [(''q2'', ''a2''), (''q1'', ''a1'')]"
  by (simp add: search_def is_empty_def ntotal_def index_search_def ranked_def
      similarities_def fvec_inner_product_def normalize_L2_def fvec_norm_L2sqr_def getitem_def
      upt_two real_sqrt_unique)

theorem index_size_matches_entries_witness:
  "search (\<lambda>sims i. i) (run [Add ''q1'' ''a1'' [1, 0], Search [1, 0] 5, Add ''q2'' ''a2'' [0, 2],
                Add ''q3'' ''a3'' [1, 0, 0]]) [0, 3] 5
     = Inr [(''q2'', ''a2''), (''q1'', ''a1'')]
   \<and> index_ntotal (run [Add ''q1'' ''a1'' [1, 0], Search [1, 0] 5, Add ''q2'' ''a2'' [0, 2],
                Add ''q3'' ''a3'' [1, 0, 0]]) = 2
   \<and> questions (run [Add ''q1'' ''a1'' [1, 0], Search [1, 0] 5, Add ''q2'' ''a2'' [0, 2],
                Add ''q3'' ''a3'' [1, 0, 0]]) = [''q1'', ''q2'']
   \<and> answers (run [Add ''q1'' ''a1'' [1, 0], Search [1, 0] 5, Add ''q2'' ''a2'' [0, 2],
                Add ''q3'' ''a3'' [1, 0, 0]]) = [''a1'', ''a2'']
   \<and> (\<exists>i < 2. (''q2'', ''a2'') = ([''q1'', ''q2''] ! i, [''a1'', ''a2''] ! i))"
proof -
  let ?calls = "[Add ''q1'' ''a1'' [1, 0], Search [1, 0] 5, Add ''q2'' ''a2'' [0, 2],
                 Add ''q3'' ''a3'' [1, 0, 0]]"
  have found: "search (\<lambda>sims i. i) (run ?calls) [0, 3] 5 = Inr [(''q2'', ''a2''), (''q1'', ''a1'')]"
    by (simp only: run_example search_example)
  note sizes = index_size_matches_entries
    [of ?calls "\<lambda>sims i. i" "[0, 3]" 5 "[(''q2'', ''a2''), (''q1'', ''a1'')]"]
  have stored: "\<forall>r \<in> set [(''q2'', ''a2''), (''q1'', ''a1'')].
      \<exists>i < length (questions (run ?calls)).
        r = (questions (run ?calls) ! i, answers (run ?calls) ! i)"
    using sizes [THEN conjunct2, THEN conjunct2, THEN conjunct2] found by (rule mp)
  have "\<exists>i < length (questions (run ?calls)).
      (''q2'', ''a2'') = (questions (run ?calls) ! i, answers (run ?calls) ! i)"
    using stored by simp
  then have pos: "\<exists>i < 2. (''q2'', ''a2'') = ([''q1'', ''q2''] ! i, [''a1'', ''a2''] ! i)"
    by (simp add: run_example numeral_2_eq_2)
  have n: "index_ntotal (run ?calls) = 2"
    using sizes [THEN conjunct1] by (simp add: run_example)
  show ?thesis
    by (intro conjI) (rule found n pos | simp add: run_example)+
qed

text \<open>
  Claim C6. On every store reached by \<open>add\<close> and \<open>search\<close> calls, a search that returns
  returns at most \<open>min(top_k, number of stored entries)\<close> results (for a count \<open>top_k\<close>,
  that is \<open>top_k \<ge> 0\<close>); with \<open>top_k \<ge> 1\<close> and a query of the store's dimension on a
  non-empty store it does return, with exactly that many results; and on an empty store it
  returns the empty list for every query, without an error.
\<close>

theorem search_result_bound:
  "(is_empty (run calls) \<longrightarrow> search tie (run calls) qe top_k = Inr [])
   \<and> (0 \<le> top_k \<and> search tie (run calls) qe top_k = Inr rs
        \<longrightarrow> int (length rs) \<le> min top_k (int (length (questions (run calls)))))
   \<and> (\<not> is_empty (run calls) \<and> 1 \<le> top_k \<and> dim (run calls) = Some (length qe)
        \<longrightarrow> (\<exists>found. search tie (run calls) qe top_k = Inr found
               \<and> int (length found) = min top_k (int (length (questions (run calls))))))"
proof -
  let ?s = "run calls"
  let ?n = "int (length (questions ?s))"
  have inv: "store_inv ?s" by (rule store_inv_run)
  have empty: "search tie ?s qe top_k = Inr []" if "is_empty ?s"
    using that by (simp add: search_def)
  have full: "\<exists>found. search tie ?s qe top_k = Inr found \<and> int (length found) = min top_k ?n"
    if h: "\<not> is_empty ?s \<and> 1 \<le> top_k \<and> dim ?s = Some (length qe)"
  proof -
    obtain ix where ix: "index ?s = Some ix" and ne: "ntotal ix \<noteq> 0"
      using h by (auto simp: is_empty_def split: option.splits)
    have d: "length qe = index_d ix" and n: "ntotal ix = length (questions ?s)"
      using inv ix h by (simp_all add: store_inv_def)
    have k: "1 \<le> top_k" using h by simp
    have "int (length (take (nat (min top_k (int (ntotal ix)))) (ranked tie ix (normalize_L2 qe))))
            = min top_k ?n"
      using k by (auto simp: length_ranked n min_def)
    then show ?thesis
      using search_nonempty [OF inv ix ne d k] by simp
  qed
  have bound: "int (length rs) \<le> min top_k ?n"
    if "0 \<le> top_k \<and> search tie ?s qe top_k = Inr rs"
  proof -
    consider "search tie ?s qe top_k = Inr []" | "search tie ?s qe top_k = Inl AssertionError"
      | ix where "index ?s = Some ix" "1 \<le> top_k"
          "search tie ?s qe top_k =
             Inr (map (\<lambda>i. (questions ?s ! i, answers ?s ! i))
                    (take (nat (min top_k (int (ntotal ix)))) (ranked tie ix (normalize_L2 qe))))"
      using search_cases [OF inv, of tie qe top_k] by blast
    then show ?thesis
    proof cases
      case 1
      then show ?thesis using that by simp
    next
      case 2
      then show ?thesis using that by simp
    next
      case 3
      have n: "ntotal ix = length (questions ?s)"
        using inv 3(1) by (simp add: store_inv_def)
      have "rs = map (\<lambda>i. (questions ?s ! i, answers ?s ! i))
                    (take (nat (min top_k (int (ntotal ix)))) (ranked tie ix (normalize_L2 qe)))"
        using 3(3) that by simp
      then show ?thesis
        using 3(2) by (auto simp: length_ranked n min_def)
    qed
  qed
  show ?thesis
    using empty full bound by blast
qed

theorem search_result_bound_witness:
  "is_empty (run []) \<and> search (\<lambda>sims i. i) (run []) [1, 0] 5 = Inr []
   \<and> \<not> is_empty (run [Add ''q1'' ''a1'' [1, 0], Search [1, 0] 5, Add ''q2'' ''a2'' [0, 2],
                       Add ''q3'' ''a3'' [1, 0, 0]])
   \<and> dim (run [Add ''q1'' ''a1'' [1, 0], Search [1, 0] 5, Add ''q2'' ''a2'' [0, 2],
                       Add ''q3'' ''a3'' [1, 0, 0]]) = Some (length [0, 3 :: real])
   \<and> search (\<lambda>sims i. i) (run [Add ''q1'' ''a1'' [1, 0], Search [1, 0] 5, Add ''q2'' ''a2'' [0, 2],
                       Add ''q3'' ''a3'' [1, 0, 0]]) [0, 3] 5
       = Inr [(''q2'', ''a2''), (''q1'', ''a1'')]
   \<and> int (length [(''q2'', ''a2''), (''q1'', ''a1'')])
       \<le> min 5 (int (length (questions (run [Add ''q1'' ''a1'' [1, 0], Search [1, 0] 5,
                       Add ''q2'' ''a2'' [0, 2], Add ''q3'' ''a3'' [1, 0, 0]]))))"
proof -
  let ?calls = "[Add ''q1'' ''a1'' [1, 0], Search [1, 0] 5, Add ''q2'' ''a2'' [0, 2],
                 Add ''q3'' ''a3'' [1, 0, 0]]"
  have e: "is_empty (run [])"
    by (simp add: run_def is_empty_def FaissQAVectorStore_init_def)
  have ne: "\<not> is_empty (run ?calls)"
    by (simp add: run_example is_empty_def ntotal_def)
  have d: "dim (run ?calls) = Some (length [0, 3 :: real])"
    by (simp add: run_example)
  have found: "search (\<lambda>sims i. i) (run ?calls) [0, 3] 5 = Inr [(''q2'', ''a2''), (''q1'', ''a1'')]"
    by (simp only: run_example search_example)
  have "search (\<lambda>sims i. i) (run []) [1, 0] 5 = Inr []"
    using search_result_bound [of "[]" "\<lambda>sims i. i" "[1, 0]" 5 "[]"] e by simp
  moreover have "int (length [(''q2'', ''a2''), (''q1'', ''a1'')])
       \<le> min 5 (int (length (questions (run ?calls))))"
    using search_result_bound [of ?calls "\<lambda>sims i. i" "[0, 3]" 5 "[(''q2'', ''a2''), (''q1'', ''a1'')]"] found
    by simp
  ultimately show ?thesis
    using e ne d found by simp
qed

text \<open>
  Claim C7. Once a store has a dimension, \<open>add\<close> with an embedding of another length
  raises at once and leaves the store as it was; every stored vector has the store's
  dimension, and no call changes that dimension.
\<close>

theorem add_dimension_mismatch_raises:
  assumes "dim (run calls) = Some n"
  shows "(length e \<noteq> n \<longrightarrow> add q a e (run calls) = (Inl AssertionError, run calls))
         \<and> (\<exists>ix. index (run calls) = Some ix \<and> index_d ix = n
                \<and> list_all (\<lambda>v. length v = n) (index_xb ix))
         \<and> dim (snd (add q a e (run calls))) = Some n"
proof -
  let ?s = "run calls"
  have inv: "store_inv ?s" by (rule store_inv_run)
  obtain ix where ix: "index ?s = Some ix"
    using inv assms by (cases "index ?s") (simp_all add: store_inv_def)
  have d: "index_d ix = n" and vs: "list_all (\<lambda>v. length v = n) (index_xb ix)"
    using inv ix assms by (simp_all add: store_inv_def)
  have raise: "add q a e ?s = (Inl AssertionError, ?s)" if "length e \<noteq> n"
    using that d by (intro add_other_dim [OF ix]) simp
  have keep: "dim (snd (add q a e ?s)) = Some n"
  proof (cases "length e = n")
    case True
    then show ?thesis
      using add_same_dim [OF ix, of e q a] d assms by simp
  next
    case False
    then show ?thesis using raise assms by simp
  qed
  show ?thesis
    using raise ix d vs keep by simp
qed

theorem add_dimension_mismatch_raises_witness:
  "dim (run [Add ''q1'' ''a1'' [1, 0]]) = Some 2
   \<and> length [1, 0, 0 :: real] \<noteq> 2
   \<and> add ''q3'' ''a3'' [1, 0, 0] (run [Add ''q1'' ''a1'' [1, 0]])
       = (Inl AssertionError, run [Add ''q1'' ''a1'' [1, 0]])
   \<and> questions (run [Add ''q1'' ''a1'' [1, 0]]) = [''q1'']"
proof -
  have d: "dim (run [Add ''q1'' ''a1'' [1, 0]]) = Some 2"
    by (simp add: run_def add_def FaissQAVectorStore_init_def new_IndexFlatIP_def index_add_def
        normalize_L2_def fvec_norm_L2sqr_def)
  have q: "questions (run [Add ''q1'' ''a1'' [1, 0]]) = [''q1'']"
    by (simp add: run_def add_def FaissQAVectorStore_init_def new_IndexFlatIP_def index_add_def
        normalize_L2_def fvec_norm_L2sqr_def)
  show ?thesis
    using add_dimension_mismatch_raises [OF d, of "[1, 0, 0]" "''q3''" "''a3''"] d q
    by simp
qed

section \<open>Self-similarity under normalisation\<close>

lemma fvec_norm_L2sqr_nonneg: "0 \<le> fvec_norm_L2sqr v"
  by (auto simp: fvec_norm_L2sqr_def intro!: sum_list_nonneg)

lemma fvec_norm_L2sqr_pos:
  assumes "\<exists>x \<in> set v. x \<noteq> 0"
  shows "0 < fvec_norm_L2sqr v"
  using assms
proof (induction v)
  case Nil
  then show ?case by simp
next
  case (Cons y v)
  have rest: "0 \<le> fvec_norm_L2sqr v" by (rule fvec_norm_L2sqr_nonneg)
  have split: "fvec_norm_L2sqr (y # v) = y * y + fvec_norm_L2sqr v"
    by (simp add: fvec_norm_L2sqr_def)
  show ?case
  proof (cases "y = 0")
    case True
    then have "0 < fvec_norm_L2sqr v" using Cons by auto
    then show ?thesis using split True by simp
  next
    case False
    then have "0 < y\<^sup>2" by simp
    then have "0 < y * y" by (simp add: power2_eq_square)
    then show ?thesis using split rest by linarith
  qed
qed

lemma fvec_norm_L2sqr_scale:
  "fvec_norm_L2sqr (map (\<lambda>x. x * c) v) = c * c * fvec_norm_L2sqr v"
  by (induction v) (simp_all add: fvec_norm_L2sqr_def algebra_simps)

lemma fvec_norm_L2sqr_normalize:
  "fvec_norm_L2sqr (normalize_L2 v) = (if 0 < fvec_norm_L2sqr v then 1 else 0)"
proof (cases "0 < fvec_norm_L2sqr v")
  case True
  let ?nr = "fvec_norm_L2sqr v"
  have one: "(1 / sqrt ?nr) * (1 / sqrt ?nr) * ?nr = 1"
    using True by (simp add: field_simps)
  have "normalize_L2 v = map (\<lambda>x. x * (1 / sqrt ?nr)) v"
    using True by (simp only: normalize_L2_def Let_def if_True)
  then have "fvec_norm_L2sqr (normalize_L2 v) = 1"
    by (simp only: fvec_norm_L2sqr_scale one)
  then show ?thesis
    using True by simp
next
  case False
  then have "fvec_norm_L2sqr v = 0"
    using fvec_norm_L2sqr_nonneg [of v] by linarith
  then show ?thesis
    by (simp add: normalize_L2_def Let_def)
qed

lemma fvec_inner_product_self: "fvec_inner_product u u = fvec_norm_L2sqr u"
  by (induction u) (simp_all add: fvec_inner_product_def fvec_norm_L2sqr_def)

lemma fvec_L2sqr_nonneg: "0 \<le> fvec_L2sqr u v"
  by (auto simp: fvec_L2sqr_def intro!: sum_list_nonneg)

lemma fvec_L2sqr_zero:
  assumes "length u = length v" and "fvec_L2sqr u v = 0"
  shows "u = v"
  using assms
proof (induction u v rule: list_induct2)
  case Nil
  then show ?case by simp
next
  case (Cons a u b v)
  have rest: "0 \<le> fvec_L2sqr u v" by (rule fvec_L2sqr_nonneg)
  have sq: "0 \<le> (a - b) * (a - b)" by simp
  have split: "fvec_L2sqr (a # u) (b # v) = (a - b) * (a - b) + fvec_L2sqr u v"
    by (simp add: fvec_L2sqr_def)
  have "(a - b) * (a - b) = 0" and z: "fvec_L2sqr u v = 0"
    using Cons.prems split rest sq by linarith+
  then have "a = b" by simp
  then show ?case using Cons.IH [OF z] by simp
qed

lemma fvec_polarisation:
  assumes "length u = length v"
  shows "2 * fvec_inner_product u v = fvec_norm_L2sqr u + fvec_norm_L2sqr v - fvec_L2sqr u v"
  using assms
  by (induction u v rule: list_induct2)
    (simp_all add: fvec_inner_product_def fvec_norm_L2sqr_def fvec_L2sqr_def algebra_simps)

lemma unit_inner_less_one:
  assumes len: "length u = length v" and u: "fvec_norm_L2sqr u = 1"
    and v: "fvec_norm_L2sqr v \<le> 1" and ne: "u \<noteq> v"
  shows "fvec_inner_product u v < 1"
proof -
  have "fvec_L2sqr u v \<noteq> 0"
    using fvec_L2sqr_zero [OF len] ne by blast
  then have "0 < fvec_L2sqr u v"
    using fvec_L2sqr_nonneg [of u v] by linarith
  then show ?thesis
    using fvec_polarisation [OF len] u v by linarith
qed

section \<open>The head of a ranking\<close>

lemma sort_key_head_least:
  fixes f :: "'a \<Rightarrow> real"
  assumes "sort_key f xs = y # rest"
  shows "y \<in> set xs" and "\<forall>x \<in> set xs. f y \<le> f x"
proof -
  have same: "set (y # rest) = set xs"
    using set_sort [of f xs] by (simp only: assms)
  then show "y \<in> set xs" by auto
  have srt: "sorted (map f (y # rest))"
    using sorted_sort_key [of f xs] by (simp only: assms)
  show "\<forall>x \<in> set xs. f y \<le> f x"
  proof
    fix x assume "x \<in> set xs"
    then have "x \<in> set (y # rest)" using same by simp
    then show "f y \<le> f x" using srt by auto
  qed
qed

lemma ranked_head:
  assumes "ntotal ix \<noteq> 0"
  shows "\<exists>h rest. ranked tie ix x = h # rest \<and> h < ntotal ix
           \<and> (\<forall>i < ntotal ix. similarities ix x ! i \<le> similarities ix x ! h)"
proof -
  let ?f = "\<lambda>i. - (similarities ix x ! i)"
  let ?xs = "sort_key (tie (similarities ix x)) [0..<ntotal ix]"
  have mem: "set ?xs = {0..<ntotal ix}" by simp
  have "length (ranked tie ix x) = ntotal ix" by (rule length_ranked)
  then have "ranked tie ix x \<noteq> []" using assms by auto
  then obtain h rest where hr: "ranked tie ix x = h # rest"
    by (cases "ranked tie ix x") auto
  then have sk: "sort_key ?f ?xs = h # rest" by (simp add: ranked_def)
  have "h \<in> set ?xs" and least: "\<forall>i \<in> set ?xs. ?f h \<le> ?f i"
    using sort_key_head_least [OF sk] by blast+
  then have "h < ntotal ix" and "\<forall>i < ntotal ix. similarities ix x ! i \<le> similarities ix x ! h"
    using mem by auto
  then show ?thesis using hr by blast
qed

section \<open>Searching with a stored embedding\<close>

lemma run_adds:
  assumes "list_all (\<lambda>en. length (snd (snd en)) = n) es" and "es \<noteq> []"
  shows "run (map (\<lambda>(q, a, e). Add q a e) es) =
           \<lparr>questions = map fst es, answers = map (fst \<circ> snd) es,
            index = Some \<lparr>index_d = n, index_xb = map (normalize_L2 \<circ> snd \<circ> snd) es\<rparr>,
            dim = Some n\<rparr>"
  using assms
proof (induction es rule: rev_induct)
  case Nil
  then show ?case by simp
next
  case (snoc en es)
  obtain q a e where en: "en = (q, a, e)" by (cases en)
  have len: "length e = n" using snoc.prems(1) by (simp add: en)
  show ?case
  proof (cases "es = []")
    case True
    have "index FaissQAVectorStore_init = None"
      by (simp add: FaissQAVectorStore_init_def)
    from add_first [OF this, of q a e] show ?thesis
      by (simp add: True en run_def len FaissQAVectorStore_init_def)
  next
    case False
    have prev: "run (map (\<lambda>(q, a, e). Add q a e) es) =
           \<lparr>questions = map fst es, answers = map (fst \<circ> snd) es,
            index = Some \<lparr>index_d = n, index_xb = map (normalize_L2 \<circ> snd \<circ> snd) es\<rparr>,
            dim = Some n\<rparr>"
      using snoc.IH snoc.prems(1) False by simp
    have ix: "index (run (map (\<lambda>(q, a, e). Add q a e) es))
                = Some \<lparr>index_d = n, index_xb = map (normalize_L2 \<circ> snd \<circ> snd) es\<rparr>"
      by (simp add: prev)
    have "length e = index_d \<lparr>index_d = n, index_xb = map (normalize_L2 \<circ> snd \<circ> snd) es\<rparr>"
      using len by simp
    from add_same_dim [OF ix this, of q a]
    have "snd (add q a e (run (map (\<lambda>(q, a, e). Add q a e) es))) =
           \<lparr>questions = map fst (es @ [en]), answers = map (fst \<circ> snd) (es @ [en]),
            index = Some \<lparr>index_d = n,
                           index_xb = map (normalize_L2 \<circ> snd \<circ> snd) (es @ [en])\<rparr>,
            dim = Some n\<rparr>"
      by (simp add: prev en)
    then show ?thesis
      by (simp add: run_snoc en)
  qed
qed

text \<open>
  Claim C3, as amended. In exact arithmetic (the cast to 32-bit floats and their rounding
  are not modelled), and whatever order the index gives to equal similarities: in a store
  built by adding entries of one dimension, a search for at least one neighbour (so also
  for at least as many as are stored) with a stored, non-zero embedding as the query
  returns that entry's (question, answer) pair first, provided every stored entry whose
  embedding has the same normalised form carries that same pair.
\<close>

theorem stored_embedding_ranks_first:
  assumes dims: "list_all (\<lambda>en. length (snd (snd en)) = n) es"
    and j: "j < length es"
    and nz: "\<exists>x \<in> set (snd (snd (es ! j))). x \<noteq> 0"
    and uniq: "\<forall>i < length es.
                 normalize_L2 (snd (snd (es ! i))) = normalize_L2 (snd (snd (es ! j)))
                 \<longrightarrow> (fst (es ! i), fst (snd (es ! i))) = (fst (es ! j), fst (snd (es ! j)))"
    and k: "1 \<le> top_k"
  shows "\<exists>rest. search tie (run (map (\<lambda>(q, a, e). Add q a e) es)) (snd (snd (es ! j))) top_k
                  = Inr ((fst (es ! j), fst (snd (es ! j))) # rest)"
proof -
  let ?s = "run (map (\<lambda>(q, a, e). Add q a e) es)"
  let ?e = "snd (snd (es ! j))"
  let ?u = "normalize_L2 ?e"
  let ?xb = "map (normalize_L2 \<circ> snd \<circ> snd) es"
  let ?ix = "\<lparr>index_d = n, index_xb = ?xb\<rparr>"
  have ne: "es \<noteq> []" using j by auto
  have s: "?s = \<lparr>questions = map fst es, answers = map (fst \<circ> snd) es,
                  index = Some ?ix, dim = Some n\<rparr>"
    using run_adds [OF dims ne] .
  have inv: "store_inv ?s" by (rule store_inv_run)
  have ix: "index ?s = Some ?ix" by (simp add: s)
  have total: "ntotal ?ix = length es" by (simp add: ntotal_def)
  have nt: "ntotal ?ix \<noteq> 0" using ne by (simp add: ntotal_def)
  have lens: "\<forall>i < length es. length (snd (snd (es ! i))) = n"
    using dims by (simp add: list_all_length)
  have len: "length ?e = index_d ?ix"
    using lens j by simp
  have found: "search tie ?s ?e top_k =
      Inr (map (\<lambda>i. (questions ?s ! i, answers ?s ! i))
             (take (nat (min top_k (int (ntotal ?ix)))) (ranked tie ?ix ?u)))"
    using search_nonempty [OF inv ix nt len k] .
  have unit: "fvec_norm_L2sqr ?u = 1"
    using fvec_norm_L2sqr_pos [OF nz] by (simp add: fvec_norm_L2sqr_normalize)
  have sim: "similarities ?ix ?u ! i = fvec_inner_product ?u (normalize_L2 (snd (snd (es ! i))))"
    if "i < length es" for i
    using that by (simp add: similarities_def)
  have self: "similarities ?ix ?u ! j = 1"
    using sim [OF j] unit by (simp add: fvec_inner_product_self)
  obtain h rest where rest: "ranked tie ?ix ?u = h # rest" and h: "h < length es"
    and top: "\<forall>i < length es. similarities ?ix ?u ! i \<le> similarities ?ix ?u ! h"
    using ranked_head [OF nt, of tie ?u] total by auto
  have high: "1 \<le> fvec_inner_product ?u (normalize_L2 (snd (snd (es ! h))))"
    using top j self sim [OF h] by auto
  have same: "normalize_L2 (snd (snd (es ! h))) = ?u"
  proof (rule ccontr)
    assume differ: "normalize_L2 (snd (snd (es ! h))) \<noteq> ?u"
    have "length ?u = length (normalize_L2 (snd (snd (es ! h))))"
      using lens h j by (simp add: length_normalize_L2)
    moreover have "fvec_norm_L2sqr (normalize_L2 (snd (snd (es ! h)))) \<le> 1"
      by (simp add: fvec_norm_L2sqr_normalize)
    moreover have "?u \<noteq> normalize_L2 (snd (snd (es ! h)))"
      using differ by simp
    ultimately have "fvec_inner_product ?u (normalize_L2 (snd (snd (es ! h)))) < 1"
      using unit by (intro unit_inner_less_one)
    then show False using high by linarith
  qed
  have pair: "(fst (es ! h), fst (snd (es ! h))) = (fst (es ! j), fst (snd (es ! j)))"
    using uniq h same by simp
  have "0 < nat (min top_k (int (ntotal ?ix)))"
    using k nt by simp
  then obtain m where m: "nat (min top_k (int (ntotal ?ix))) = Suc m"
    by (cases "nat (min top_k (int (ntotal ?ix)))") auto
  have "search tie ?s ?e top_k =
      Inr ((questions ?s ! h, answers ?s ! h) #
           map (\<lambda>i. (questions ?s ! i, answers ?s ! i)) (take m rest))"
    using found by (simp only: rest m take_Suc_Cons list.map)
  moreover have "questions ?s ! h = fst (es ! h)" and "answers ?s ! h = fst (snd (es ! h))"
    using h by (simp_all add: s)
  ultimately show ?thesis using pair by simp
qed

lemma normalize_example:
  "normalize_L2 [0, 2] = [0, 1]" "normalize_L2 [1, 0] = [1, 0]" "normalize_L2 [0, 5] = [0, 1]"
  by (simp_all add: normalize_L2_def fvec_norm_L2sqr_def real_sqrt_unique)

theorem stored_embedding_ranks_first_witness:
  "list_all (\<lambda>en. length (snd (snd en)) = 2)
     [(''q1'', ''a1'', [1, 0]), (''q2'', ''a2'', [0, 2]), (''q2'', ''a2'', [0, 5 :: real])]
   \<and> normalize_L2 [1, 0] \<noteq> normalize_L2 [0, 2]
   \<and> normalize_L2 [0, 5] = normalize_L2 [0, 2]
   \<and> (\<exists>rest. search (\<lambda>sims i. i)
                 (run [Add ''q1'' ''a1'' [1, 0], Add ''q2'' ''a2'' [0, 2],
                       Add ''q2'' ''a2'' [0, 5]]) [0, 2] 3
                = Inr ((''q2'', ''a2'') # rest))"
proof -
  let ?es = "[(''q1'', ''a1'', [1, 0]), (''q2'', ''a2'', [0, 2]), (''q2'', ''a2'', [0, 5 :: real])]"
  have dims: "list_all (\<lambda>en. length (snd (snd en)) = 2) ?es"
    by simp
  have j: "(1::nat) < length ?es"
    by simp
  have nz: "\<exists>x \<in> set (snd (snd (?es ! 1))). x \<noteq> 0"
    by simp
  have ne: "normalize_L2 [1, 0] \<noteq> normalize_L2 [0, 2]"
    by (simp add: normalize_example)
  have eq: "normalize_L2 [0, 5] = normalize_L2 [0, 2]"
    by (simp add: normalize_example)
  have uniq: "\<forall>i < length ?es.
                 normalize_L2 (snd (snd (?es ! i))) = normalize_L2 (snd (snd (?es ! 1)))
                 \<longrightarrow> (fst (?es ! i), fst (snd (?es ! i))) = (fst (?es ! 1), fst (snd (?es ! 1)))"
  proof (intro allI impI)
    fix i :: nat
    assume i: "i < length ?es"
      and same: "normalize_L2 (snd (snd (?es ! i))) = normalize_L2 (snd (snd (?es ! 1)))"
    have "i = 0 \<or> i = 1 \<or> i = 2" using i by auto
    then show "(fst (?es ! i), fst (snd (?es ! i))) = (fst (?es ! 1), fst (snd (?es ! 1)))"
    proof (elim disjE)
      assume "i = 0"
      then show ?thesis using same ne by simp
    next
      assume "i = 1"
      then show ?thesis by simp
    next
      assume "i = 2"
      then show ?thesis by simp
    qed
  qed
  have k: "(1::int) \<le> 3"
    by simp
  from stored_embedding_ranks_first [OF dims j nz uniq k, of "\<lambda>sims i. i"]
  have "\<exists>rest. search (\<lambda>sims i. i)
                 (run [Add ''q1'' ''a1'' [1, 0], Add ''q2'' ''a2'' [0, 2],
                       Add ''q2'' ''a2'' [0, 5]]) [0, 2] 3
                = Inr ((''q2'', ''a2'') # rest)"
    by simp
  then show ?thesis
    using dims ne eq by simp
qed

text \<open>
  Two different pairs stored under the same embedding: a search with that embedding is
  the search with the embedding of either entry, and whatever order the index gives to
  equal similarities, its first result is not both pairs. Each of the two orders leaves
  one entry whose own embedding does not bring its pair first.
\<close>

theorem same_embedding_counterexample:
  "run [Add ''q1'' ''a1'' [1, 0], Add ''q2'' ''a2'' [1, 0]]
     = \<lparr>questions = [''q1'', ''q2''], answers = [''a1'', ''a2''],
        index = Some \<lparr>index_d = 2, index_xb = [[1, 0], [1, 0]]\<rparr>, dim = Some 2\<rparr>
   \<and> (\<forall>tie. \<not> ((\<exists>rest. search tie (run [Add ''q1'' ''a1'' [1, 0], Add ''q2'' ''a2'' [1, 0]])
                              [1, 0] 5 = Inr ((''q1'', ''a1'') # rest))
               \<and> (\<exists>rest. search tie (run [Add ''q1'' ''a1'' [1, 0], Add ''q2'' ''a2'' [1, 0]])
                              [1, 0] 5 = Inr ((''q2'', ''a2'') # rest))))
   \<and> search (\<lambda>sims i. i) (run [Add ''q1'' ''a1'' [1, 0], Add ''q2'' ''a2'' [1, 0]]) [1, 0] 5
     = Inr [(''q1'', ''a1''), (''q2'', ''a2'')]
   \<and> search (\<lambda>sims i. 1 - i) (run [Add ''q1'' ''a1'' [1, 0], Add ''q2'' ''a2'' [1, 0]]) [1, 0] 5
     = Inr [(''q2'', ''a2''), (''q1'', ''a1'')]"
proof -
  let ?calls = "[Add ''q1'' ''a1'' [1, 0], Add ''q2'' ''a2'' [1, 0]]"
  have built: "run ?calls
     = \<lparr>questions = [''q1'', ''q2''], answers = [''a1'', ''a2''],
        index = Some \<lparr>index_d = 2, index_xb = [[1, 0], [1, 0]]\<rparr>, dim = Some 2\<rparr>"
    by (simp add: run_def add_def FaissQAVectorStore_init_def new_IndexFlatIP_def index_add_def
        normalize_L2_def fvec_norm_L2sqr_def)
  have first: "search (\<lambda>sims i. i) (run ?calls) [1, 0] 5 = Inr [(''q1'', ''a1''), (''q2'', ''a2'')]"
    unfolding built
    by (simp add: search_def is_empty_def ntotal_def index_search_def ranked_def
        similarities_def fvec_inner_product_def normalize_L2_def fvec_norm_L2sqr_def
        getitem_def upt_two)
  have second: "search (\<lambda>sims i. 1 - i) (run ?calls) [1, 0] 5
                  = Inr [(''q2'', ''a2''), (''q1'', ''a1'')]"
    unfolding built
    by (simp add: search_def is_empty_def ntotal_def index_search_def ranked_def
        similarities_def fvec_inner_product_def normalize_L2_def fvec_norm_L2sqr_def
        getitem_def upt_two)
  have never: "\<not> ((\<exists>rest. search tie (run ?calls) [1, 0] 5 = Inr ((''q1'', ''a1'') # rest))
               \<and> (\<exists>rest. search tie (run ?calls) [1, 0] 5 = Inr ((''q2'', ''a2'') # rest)))"
    for tie
  proof
    assume "(\<exists>rest. search tie (run ?calls) [1, 0] 5 = Inr ((''q1'', ''a1'') # rest))
               \<and> (\<exists>rest. search tie (run ?calls) [1, 0] 5 = Inr ((''q2'', ''a2'') # rest))"
    then obtain r1 r2 where
      "search tie (run ?calls) [1, 0] 5 = Inr ((''q1'', ''a1'') # r1)"
      "search tie (run ?calls) [1, 0] 5 = Inr ((''q2'', ''a2'') # r2)"
      by (elim conjE exE)
    then have "Inr ((''q1'', ''a1'') # r1) = (Inr ((''q2'', ''a2'') # r2) :: (string \<times> string) list result)"
      by simp
    then show False by simp
  qed
  show ?thesis
    by (intro conjI allI) (rule built never first second)+
qed

section \<open>Properties of the prompt assembler\<close>

lemma select_recent_returns:
  assumes "\<forall>m \<in> set H. {''role'', ''content''} \<subseteq> dom m"
  shows "\<exists>k \<le> length H.
           select_recent_messages_within_budget ct H B = Inr (map role_content (drop k H))"
proof -
  have keys: "\<forall>m \<in> set (rev H). {''role'', ''content''} \<subseteq> dom m"
    using assms by simp
  obtain n where n: "n \<le> length H"
    "recent_loop ct B (rev H) [] 0 = Inr ([] @ map role_content (take n (rev H)))"
    using recent_loop_take [OF keys, of ct B "[]" 0] by auto
  have "rev (map role_content (take n (rev H))) = map role_content (drop (length H - n) H)"
    by (simp add: rev_map rev_take)
  then have "select_recent_messages_within_budget ct H B
               = Inr (map role_content (drop (length H - n) H))"
    using n(2) by (simp add: select_recent_messages_within_budget_def)
  then show ?thesis
    by (intro exI [of _ "length H - n"]) simp
qed

lemma row_message_fields:
  "{''role'', ''content''} \<subseteq> dom [''role'' \<mapsto> r, ''content'' \<mapsto> c, ''timestamp'' \<mapsto> t]"
proof -
  have "''role'' \<in> dom [''role'' \<mapsto> r, ''content'' \<mapsto> c, ''timestamp'' \<mapsto> t]"
    by (rule domI [of _ _ r]) simp
  moreover have "''content'' \<in> dom [''role'' \<mapsto> r, ''content'' \<mapsto> c, ''timestamp'' \<mapsto> t]"
    by (rule domI [of _ _ c]) simp
  ultimately show ?thesis
    by (simp only: insert_subset empty_subsetI simp_thms)
qed

lemma get_messages_fields:
  assumes "get_messages srv db conversation_id = Inr H"
  shows "\<forall>m \<in> set H. {''role'', ''content''} \<subseteq> dom m"
proof
  fix m
  assume m: "m \<in> set H"
  show "{''role'', ''content''} \<subseteq> dom m"
  proof (cases srv)
    case Refused
    then have "H = []" using assms by (simp add: get_messages_def)
    then show ?thesis using m by simp
  next
    case Failing
    then show ?thesis using assms by (simp add: get_messages_def)
  next
    case Serving
    let ?f = "\<lambda>r. [''role'' \<mapsto> row_role r, ''content'' \<mapsto> row_content r,
                      ''timestamp'' \<mapsto> str_nat (row_timestamp r)]"
    let ?rows = "sort_key row_timestamp
               (filter (\<lambda>r. row_conversation_id r = conversation_id) (messages db))"
    have "get_messages srv db conversation_id = Inr (map ?f ?rows)"
      by (simp only: get_messages_def Serving server.case)
    then have "H = map ?f ?rows" using assms by simp
    then have "m \<in> ?f ` set ?rows"
      using m by (simp only: set_map)
    then show ?thesis
      by (elim imageE) (simp only: row_message_fields)
  qed
qed

lemma select_recent_empty: "select_recent_messages_within_budget ct [] B = Inr []"
  by (simp add: select_recent_messages_within_budget_def)

lemma build_vector_memory_context_empty:
  "is_empty vs \<Longrightarrow> build_vector_memory_context ct embed_text tie vs question = Inr []"
  by (simp add: build_vector_memory_context_def)

lemma build_messages_shape:
  assumes "build_messages_for_model ct embed_text tie srv db vs cid question = Inr msgs"
  shows "\<exists>ctx recent.
           length ctx \<le> 1
           \<and> msgs = [[''role'' \<mapsto> ''system'', ''content'' \<mapsto> SYSTEM_INSTRUCTION]] @ ctx
                    @ recent @ [[''role'' \<mapsto> ''user'', ''content'' \<mapsto> question]]"
proof -
  obtain history where history: "get_chat_history srv db cid = Inr history"
    using assms
    by (cases "get_chat_history srv db cid") (simp_all add: build_messages_for_model_def)
  obtain qa where qa: "build_vector_memory_context ct embed_text tie vs question = Inr qa"
    using assms history
    by (cases "build_vector_memory_context ct embed_text tie vs question")
      (simp_all add: build_messages_for_model_def Let_def)
  obtain recent where recent:
    "select_recent_messages_within_budget ct history MAX_HISTORY_TOKENS = Inr recent"
    using assms history qa
    by (cases "select_recent_messages_within_budget ct history MAX_HISTORY_TOKENS")
      (simp_all add: build_messages_for_model_def Let_def)
  show ?thesis
  proof (cases "qa = []")
    case True
    have "msgs = [[''role'' \<mapsto> ''system'', ''content'' \<mapsto> SYSTEM_INSTRUCTION]] @ []
                    @ recent @ [[''role'' \<mapsto> ''user'', ''content'' \<mapsto> question]]"
      using assms history qa recent True by (simp add: build_messages_for_model_def Let_def)
    then show ?thesis
      by (intro exI [of _ "[]"] exI [of _ recent]) simp
  next
    case False
    let ?c = "[''role'' \<mapsto> ''system'',
                 ''content'' \<mapsto>
                   strip (join newline
                     (''Here are some relevant previous Q&A you have given:'' # qa_lines 1 qa))]"
    have "msgs = [[''role'' \<mapsto> ''system'', ''content'' \<mapsto> SYSTEM_INSTRUCTION]] @ [?c]
                    @ recent @ [[''role'' \<mapsto> ''user'', ''content'' \<mapsto> question]]"
      using assms history qa recent False by (simp add: build_messages_for_model_def Let_def)
    then show ?thesis
      by (intro exI [of _ "[?c]"] exI [of _ recent]) simp
  qed
qed

lemma build_messages_returns:
  assumes history: "get_chat_history srv db cid = Inr history"
    and qa: "build_vector_memory_context ct embed_text tie vs question = Inr qa"
  shows "\<exists>msgs. build_messages_for_model ct embed_text tie srv db vs cid question = Inr msgs"
proof -
  have "get_messages srv db cid = Inr history"
    using history by (simp add: get_chat_history_def)
  from get_messages_fields [OF this]
  have keys: "\<forall>m \<in> set history. {''role'', ''content''} \<subseteq> dom m" .
  obtain k where
    "select_recent_messages_within_budget ct history MAX_HISTORY_TOKENS
       = Inr (map role_content (drop k history))"
    using select_recent_returns [OF keys, of ct MAX_HISTORY_TOKENS]
    by (elim exE conjE)
  then show ?thesis
    using history qa by (simp add: build_messages_for_model_def Let_def)
qed

lemma search_returns:
  assumes inv: "store_inv s" and d: "dim s = Some (length qe)" and k: "1 \<le> top_k"
  shows "\<exists>rs. search tie s qe top_k = Inr rs"
proof (cases "is_empty s")
  case True
  then show ?thesis by (simp add: search_def)
next
  case False
  then obtain ix where ix: "index s = Some ix" and ne: "ntotal ix \<noteq> 0"
    by (auto simp: is_empty_def split: option.splits)
  have "length qe = index_d ix"
    using inv ix d by (simp add: store_inv_def)
  from search_nonempty [OF inv ix ne this k] show ?thesis by (rule exI)
qed

text \<open>
  Claim C1. Whenever \<open>build_messages_for_model\<close> returns a list, the list has at least two
  messages, its first has role \<open>system\<close>, and its last is the user message carrying the
  question. With an empty store and an empty history the result is exactly the system
  instruction followed by the question. When the history fetch returns, the assembler
  returns a list whenever the store is empty, and also when the embedding call succeeds
  with a vector of the store's dimension.
\<close>

theorem build_messages_first_last:
  "(build_messages_for_model ct embed_text tie srv db vs cid question = Inr msgs
      \<longrightarrow> 2 \<le> length msgs
          \<and> hd msgs ''role'' = Some ''system''
          \<and> last msgs = [''role'' \<mapsto> ''user'', ''content'' \<mapsto> question])
   \<and> (is_empty vs \<and> get_chat_history srv db cid = Inr []
      \<longrightarrow> build_messages_for_model ct embed_text tie srv db vs cid question
            = Inr [[''role'' \<mapsto> ''system'', ''content'' \<mapsto> SYSTEM_INSTRUCTION],
                   [''role'' \<mapsto> ''user'', ''content'' \<mapsto> question]])
   \<and> (is_empty vs \<and> get_chat_history srv db cid = Inr history
      \<longrightarrow> (\<exists>found. build_messages_for_model ct embed_text tie srv db vs cid question
                      = Inr found))
   \<and> (vs = run calls \<and> embed_text question = Inr v \<and> dim vs = Some (length v)
        \<and> get_chat_history srv db cid = Inr history
      \<longrightarrow> (\<exists>found. build_messages_for_model ct embed_text tie srv db vs cid question
                      = Inr found))"
proof (intro conjI impI)
  assume "build_messages_for_model ct embed_text tie srv db vs cid question = Inr msgs"
  from build_messages_shape [OF this] obtain ctx recent where
    "msgs = [[''role'' \<mapsto> ''system'', ''content'' \<mapsto> SYSTEM_INSTRUCTION]] @ ctx
              @ recent @ [[''role'' \<mapsto> ''user'', ''content'' \<mapsto> question]]"
    by (elim exE conjE)
  then show "2 \<le> length msgs" and "hd msgs ''role'' = Some ''system''"
    and "last msgs = [''role'' \<mapsto> ''user'', ''content'' \<mapsto> question]"
    by simp_all
next
  assume "is_empty vs \<and> get_chat_history srv db cid = Inr []"
  then show "build_messages_for_model ct embed_text tie srv db vs cid question
            = Inr [[''role'' \<mapsto> ''system'', ''content'' \<mapsto> SYSTEM_INSTRUCTION],
                   [''role'' \<mapsto> ''user'', ''content'' \<mapsto> question]]"
    by (simp add: build_messages_for_model_def Let_def build_vector_memory_context_empty
        select_recent_empty)
next
  assume h: "is_empty vs \<and> get_chat_history srv db cid = Inr history"
  then have "build_vector_memory_context ct embed_text tie vs question = Inr []"
    by (simp add: build_vector_memory_context_empty)
  moreover have "get_chat_history srv db cid = Inr history" using h by simp
  ultimately show "\<exists>found. build_messages_for_model ct embed_text tie srv db vs cid question
                      = Inr found"
    by (intro build_messages_returns)
next
  assume h: "vs = run calls \<and> embed_text question = Inr v \<and> dim vs = Some (length v)
        \<and> get_chat_history srv db cid = Inr history"
  then have inv: "store_inv vs" by (simp add: store_inv_run)
  have d: "dim vs = Some (length v)" using h by blast
  have e: "embed_text question = Inr v" using h by blast
  have g: "get_chat_history srv db cid = Inr history" using h by blast
  obtain rs where "search tie vs v 5 = Inr rs"
    using search_returns [OF inv d, of 5 tie] by auto
  then have "\<exists>qa. build_vector_memory_context ct embed_text tie vs question = Inr qa"
    using e by (simp add: build_vector_memory_context_def)
  then obtain qa where "build_vector_memory_context ct embed_text tie vs question = Inr qa" ..
  with g show "\<exists>found. build_messages_for_model ct embed_text tie srv db vs cid question
                      = Inr found"
    by (rule build_messages_returns)
qed

theorem build_messages_first_last_witness:
  "is_empty FaissQAVectorStore_init
   \<and> get_chat_history Serving \<lparr>now = 7, conversations = [], messages = []\<rparr> ''c1'' = Inr []
   \<and> build_messages_for_model length (\<lambda>t. Inl UpstreamError) (\<lambda>sims i. i) Serving
         \<lparr>now = 7, conversations = [], messages = []\<rparr>
         FaissQAVectorStore_init ''c1'' ''What is 2+2?''
       = Inr [[''role'' \<mapsto> ''system'', ''content'' \<mapsto> SYSTEM_INSTRUCTION],
              [''role'' \<mapsto> ''user'', ''content'' \<mapsto> ''What is 2+2?'']]
   \<and> 2 \<le> length [[''role'' \<mapsto> ''system'', ''content'' \<mapsto> SYSTEM_INSTRUCTION],
                     [''role'' \<mapsto> ''user'', ''content'' \<mapsto> ''What is 2+2?'']]
   \<and> hd [[''role'' \<mapsto> ''system'', ''content'' \<mapsto> SYSTEM_INSTRUCTION],
           [''role'' \<mapsto> ''user'', ''content'' \<mapsto> ''What is 2+2?'']] ''role'' = Some ''system''
   \<and> dim (run [Add ''q1'' ''a1'' [1, 0]]) = Some (length [0, 3 :: real])
   \<and> (\<exists>found. build_messages_for_model length (\<lambda>t. Inr [0, 3]) (\<lambda>sims i. i) Serving
         \<lparr>now = 7, conversations = [], messages = []\<rparr>
         (run [Add ''q1'' ''a1'' [1, 0]]) ''c1'' ''What is 2+2?'' = Inr found)"
proof -
  let ?db = "\<lparr>now = 7, conversations = [], messages = []\<rparr>"
  let ?two = "[[''role'' \<mapsto> ''system'', ''content'' \<mapsto> SYSTEM_INSTRUCTION],
               [''role'' \<mapsto> ''user'', ''content'' \<mapsto> ''What is 2+2?'']]"
  have e: "is_empty FaissQAVectorStore_init"
    by (simp add: is_empty_def FaissQAVectorStore_init_def)
  have h: "get_chat_history Serving ?db ''c1'' = Inr []"
    by (simp add: get_chat_history_def get_messages_def)
  note empty = build_messages_first_last
    [of length "\<lambda>t. Inl UpstreamError" "\<lambda>sims i. i" Serving ?db FaissQAVectorStore_init "''c1''"
        "''What is 2+2?''" ?two "[]" "[]" "[]"]
  have exact: "build_messages_for_model length (\<lambda>t. Inl UpstreamError) (\<lambda>sims i. i) Serving ?db
                 FaissQAVectorStore_init ''c1'' ''What is 2+2?'' = Inr ?two"
    using empty [THEN conjunct2, THEN conjunct1] conjI [OF e h] by (rule mp)
  have shape: "2 \<le> length ?two \<and> hd ?two ''role'' = Some ''system''
                 \<and> last ?two = [''role'' \<mapsto> ''user'', ''content'' \<mapsto> ''What is 2+2?'']"
    using empty [THEN conjunct1] exact by (rule mp)
  have d: "dim (run [Add ''q1'' ''a1'' [1, 0]]) = Some (length [0, 3 :: real])"
    by (simp add: run_def add_def FaissQAVectorStore_init_def new_IndexFlatIP_def index_add_def
        normalize_L2_def fvec_norm_L2sqr_def)
  note full = build_messages_first_last
    [of length "\<lambda>t. Inr [0, 3]" "\<lambda>sims i. i" Serving ?db "run [Add ''q1'' ''a1'' [1, 0]]" "''c1''"
        "''What is 2+2?''" "[]" "[]" "[Add ''q1'' ''a1'' [1, 0]]" "[0, 3]"]
  have returns: "\<exists>found. build_messages_for_model length (\<lambda>t. Inr [0, 3]) (\<lambda>sims i. i) Serving ?db
                   (run [Add ''q1'' ''a1'' [1, 0]]) ''c1'' ''What is 2+2?'' = Inr found"
    using full [THEN conjunct2, THEN conjunct2, THEN conjunct2] d h by simp
  show ?thesis
    by (intro conjI) (rule e h exact d returns shape [THEN conjunct1]
        shape [THEN conjunct2, THEN conjunct1])+
qed

section \<open>Properties of the post-response update\<close>

lemma add_message_outcome:
  "fst (add_message s1 s2 c r t db)
     = (if s1 = Failing \<or> s2 = Failing then Inl DatabaseError else Inr ())"
  by (cases s1; cases s2)
    (simp_all add: add_message_def ensure_conversation_exists_def Let_def)

lemma add_message_rows:
  "messages (snd (add_message s1 s2 c r t db))
     = (if s1 \<noteq> Failing \<and> s2 = Serving
        then messages db @
             [\<lparr>row_conversation_id = c, row_role = r, row_content = t, row_timestamp = now db\<rparr>]
        else messages db)"
  by (cases s1; cases s2)
    (simp_all add: add_message_def ensure_conversation_exists_def Let_def)

lemma add_message_now: "now (snd (add_message s1 s2 c r t db)) = now db"
  by (cases s1; cases s2)
    (simp_all add: add_message_def ensure_conversation_exists_def Let_def)

lemma update_first_raises:
  assumes "fst (add_message s1 s2 cid ''user'' q db) = Inl e"
  shows "update_memories_after_response embed_text s1 s2 s3 s4 cid q a db vs
           = (Inl e, snd (add_message s1 s2 cid ''user'' q db), vs)"
  using assms
  by (cases "add_message s1 s2 cid ''user'' q db")
    (simp add: update_memories_after_response_def)

lemma update_second_raises:
  assumes "fst (add_message s1 s2 cid ''user'' q db) = Inr ()"
    and "fst (add_message s3 s4 cid ''assistant'' a (snd (add_message s1 s2 cid ''user'' q db)))
           = Inl e"
  shows "update_memories_after_response embed_text s1 s2 s3 s4 cid q a db vs
           = (Inl e,
              snd (add_message s3 s4 cid ''assistant'' a (snd (add_message s1 s2 cid ''user'' q db))),
              vs)"
  using assms
  by (cases "add_message s1 s2 cid ''user'' q db";
      cases "add_message s3 s4 cid ''assistant'' a (snd (add_message s1 s2 cid ''user'' q db))")
    (simp add: update_memories_after_response_def)

lemma update_both_return:
  assumes "fst (add_message s1 s2 cid ''user'' q db) = Inr ()"
    and "fst (add_message s3 s4 cid ''assistant'' a (snd (add_message s1 s2 cid ''user'' q db)))
           = Inr ()"
  shows "update_memories_after_response embed_text s1 s2 s3 s4 cid q a db vs
           = (if should_store_in_vector_memory q a then
                (case embed_text q of
                   Inl e \<Rightarrow>
                     (Inl e,
                      snd (add_message s3 s4 cid ''assistant'' a
                             (snd (add_message s1 s2 cid ''user'' q db))), vs)
                 | Inr v \<Rightarrow>
                     (fst (add q a v vs),
                      snd (add_message s3 s4 cid ''assistant'' a
                             (snd (add_message s1 s2 cid ''user'' q db))),
                      snd (add q a v vs)))
              else (Inr (),
                    snd (add_message s3 s4 cid ''assistant'' a
                           (snd (add_message s1 s2 cid ''user'' q db))), vs))"
  using assms
  by (cases "add_message s1 s2 cid ''user'' q db";
      cases "add_message s3 s4 cid ''assistant'' a (snd (add_message s1 s2 cid ''user'' q db))")
    (simp add: update_memories_after_response_def split: sum.splits prod.splits)

lemma add_stores_entry:
  assumes "vs = run calls" and "index vs = None \<or> dim vs = Some (length v)"
  shows "fst (add q a v vs) = Inr ()"
    and "entries (snd (add q a v vs)) = entries vs @ [(q, a)]"
proof -
  have inv: "store_inv vs" using assms(1) by (simp add: store_inv_run)
  have stored: "add q a v vs = (Inr (), snd (add q a v vs))
      \<and> questions (snd (add q a v vs)) = questions vs @ [q]
      \<and> answers (snd (add q a v vs)) = answers vs @ [a]"
  proof (cases "index vs")
    case None
    then show ?thesis by (simp add: add_first)
  next
    case (Some ix)
    then have "dim vs = Some (length v)"
      using assms(2) by simp
    moreover have "dim vs = Some (index_d ix)"
      using inv Some by (simp add: store_inv_def)
    ultimately have "length v = index_d ix"
      by simp
    from add_same_dim [OF Some this] show ?thesis by simp
  qed
  have lens: "length (answers vs) = length (questions vs)"
    using inv by (rule store_inv_sizes)
  show "fst (add q a v vs) = Inr ()"
    using stored by (metis fst_conv)
  show "entries (snd (add q a v vs)) = entries vs @ [(q, a)]"
    using stored lens by (simp add: entries_def)
qed

text \<open>
  Claim C9, as amended. The update calls the persistence operation for the question
  under role \<open>user\<close> and then for the answer under role \<open>assistant\<close>. A persistence call
  raises when the server fails one of its two connections, and then the update ends with
  that error: what was committed before stays, the later persistence call is not made
  and the store is left as it was, whatever the heuristic says. A refused connection is
  skipped without an error and stops nothing. When both calls return, the database is
  the one they leave (the two rows in that order when every connection is served), the
  store is left alone when the heuristic rejects the exchange, and it receives \<open>add\<close> with
  the question, the answer and the question's embedding when the heuristic accepts; a
  failure of the embedding call or of \<open>add\<close> leaves the persisted rows in place.
\<close>

theorem update_memories_steps:
  fixes embed_text srv1 srv2 srv3 srv4 cid question answer db vs first second upd
  defines "first \<equiv> add_message srv1 srv2 cid ''user'' question db"
    and "second \<equiv> add_message srv3 srv4 cid ''assistant'' answer (snd first)"
    and "upd \<equiv> update_memories_after_response embed_text srv1 srv2 srv3 srv4 cid question
                  answer db vs"
  shows
  "fst first = (if srv1 = Failing \<or> srv2 = Failing then Inl DatabaseError else Inr ())
   \<and> fst second = (if srv3 = Failing \<or> srv4 = Failing then Inl DatabaseError else Inr ())
   \<and> messages (snd first)
       = (if srv1 \<noteq> Failing \<and> srv2 = Serving
          then messages db @
               [\<lparr>row_conversation_id = cid, row_role = ''user'', row_content = question,
                 row_timestamp = now db\<rparr>]
          else messages db)
   \<and> messages (snd second)
       = (if srv3 \<noteq> Failing \<and> srv4 = Serving
          then messages (snd first) @
               [\<lparr>row_conversation_id = cid, row_role = ''assistant'', row_content = answer,
                 row_timestamp = now db\<rparr>]
          else messages (snd first))
   \<and> (fst first = Inl e \<longrightarrow> upd = (Inl e, snd first, vs))
   \<and> (fst first = Inr () \<and> fst second = Inl e \<longrightarrow> upd = (Inl e, snd second, vs))
   \<and> (fst first = Inr () \<and> fst second = Inr () \<longrightarrow>
        fst (snd upd) = snd second
        \<and> (fst upd, snd (snd upd))
            = (if should_store_in_vector_memory question answer then
                 (case embed_text question of
                    Inl err \<Rightarrow> (Inl err, vs)
                  | Inr q_emb \<Rightarrow> add question answer q_emb vs)
               else (Inr (), vs)))
   \<and> (fst first = Inr () \<and> fst second = Inr ()
        \<and> should_store_in_vector_memory question answer \<and> embed_text question = Inr v
        \<and> vs = run calls \<and> (index vs = None \<or> dim vs = Some (length v)) \<longrightarrow>
        fst upd = Inr () \<and> entries (snd (snd upd)) = entries vs @ [(question, answer)])
   \<and> (srv1 = Serving \<and> srv2 = Serving \<and> srv3 = Serving \<and> srv4 = Serving \<longrightarrow>
        messages (fst (snd upd))
          = messages db @
            [\<lparr>row_conversation_id = cid, row_role = ''user'', row_content = question,
              row_timestamp = now db\<rparr>,
             \<lparr>row_conversation_id = cid, row_role = ''assistant'', row_content = answer,
              row_timestamp = now db\<rparr>])"
proof (intro conjI impI)
  show o1: "fst first = (if srv1 = Failing \<or> srv2 = Failing then Inl DatabaseError else Inr ())"
    unfolding first_def by (rule add_message_outcome)
  show o2: "fst second = (if srv3 = Failing \<or> srv4 = Failing then Inl DatabaseError else Inr ())"
    unfolding second_def by (rule add_message_outcome)
  show m1: "messages (snd first)
       = (if srv1 \<noteq> Failing \<and> srv2 = Serving
          then messages db @
               [\<lparr>row_conversation_id = cid, row_role = ''user'', row_content = question,
                 row_timestamp = now db\<rparr>]
          else messages db)"
    unfolding first_def by (rule add_message_rows)
  show m2: "messages (snd second)
       = (if srv3 \<noteq> Failing \<and> srv4 = Serving
          then messages (snd first) @
               [\<lparr>row_conversation_id = cid, row_role = ''assistant'', row_content = answer,
                 row_timestamp = now db\<rparr>]
          else messages (snd first))"
    unfolding second_def first_def by (simp only: add_message_rows add_message_now)
  show "upd = (Inl e, snd first, vs)" if "fst first = Inl e"
    using that unfolding upd_def first_def by (rule update_first_raises)
  show "upd = (Inl e, snd second, vs)" if "fst first = Inr () \<and> fst second = Inl e"
    using that unfolding upd_def second_def first_def
    by (intro update_second_raises) simp_all
  have both: "upd = (if should_store_in_vector_memory question answer then
                (case embed_text question of
                   Inl e \<Rightarrow> (Inl e, snd second, vs)
                 | Inr v \<Rightarrow> (fst (add question answer v vs), snd second,
                             snd (add question answer v vs)))
              else (Inr (), snd second, vs))"
    if "fst first = Inr ()" and "fst second = Inr ()"
    using that unfolding upd_def second_def first_def by (rule update_both_return)
  show "fst (snd upd) = snd second"
    and "(fst upd, snd (snd upd))
            = (if should_store_in_vector_memory question answer then
                 (case embed_text question of
                    Inl err \<Rightarrow> (Inl err, vs)
                  | Inr q_emb \<Rightarrow> add question answer q_emb vs)
               else (Inr (), vs))"
    if r: "fst first = Inr () \<and> fst second = Inr ()"
    using both [OF r [THEN conjunct1] r [THEN conjunct2]] by (simp_all split: sum.splits)
  show "messages (fst (snd upd))
          = messages db @
            [\<lparr>row_conversation_id = cid, row_role = ''user'', row_content = question,
              row_timestamp = now db\<rparr>,
             \<lparr>row_conversation_id = cid, row_role = ''assistant'', row_content = answer,
              row_timestamp = now db\<rparr>]"
    if s: "srv1 = Serving \<and> srv2 = Serving \<and> srv3 = Serving \<and> srv4 = Serving"
  proof -
    have r1: "fst first = Inr ()" and r2: "fst second = Inr ()"
      using o1 o2 s by simp_all
    have "fst (snd upd) = snd second"
      using both [OF r1 r2] by (simp split: sum.splits)
    then show ?thesis
      using m1 m2 s by simp
  qed
  assume h: "fst first = Inr () \<and> fst second = Inr ()
        \<and> should_store_in_vector_memory question answer \<and> embed_text question = Inr v
        \<and> vs = run calls \<and> (index vs = None \<or> dim vs = Some (length v))"
  have r1: "fst first = Inr ()" and r2: "fst second = Inr ()"
    and keep: "should_store_in_vector_memory question answer"
    and emb: "embed_text question = Inr v"
    and vs: "vs = run calls" and alt: "index vs = None \<or> dim vs = Some (length v)"
    using h by blast+
  have u: "fst upd = fst (add question answer v vs)"
    "snd (snd upd) = snd (add question answer v vs)"
    using both [OF r1 r2] keep emb by simp_all
  show "fst upd = Inr ()"
    using u(1) add_stores_entry(1) [OF vs alt] by simp
  show "entries (snd (snd upd)) = entries vs @ [(question, answer)]"
    using u(2) add_stores_entry(2) [OF vs alt] by simp
qed

theorem update_memories_steps_witness:
  "should_store_in_vector_memory ''what is a monad really'' ''it is a monoid of endofunctors''
   \<and> index (run []) = None
   \<and> messages (fst (snd (update_memories_after_response (\<lambda>t. Inr [1, 0]) Serving Serving Serving Serving ''c1''
          ''what is a monad really'' ''it is a monoid of endofunctors''
          \<lparr>now = 7, conversations = [], messages = []\<rparr> (run []))))
       = [\<lparr>row_conversation_id = ''c1'', row_role = ''user'', row_content = ''what is a monad really'',
             row_timestamp = 7\<rparr>,
          \<lparr>row_conversation_id = ''c1'', row_role = ''assistant'', row_content = ''it is a monoid of endofunctors'',
             row_timestamp = 7\<rparr>]
   \<and> fst (update_memories_after_response (\<lambda>t. Inr [1, 0]) Serving Serving Serving Serving ''c1''
          ''what is a monad really'' ''it is a monoid of endofunctors''
          \<lparr>now = 7, conversations = [], messages = []\<rparr> (run [])) = Inr ()
   \<and> entries (snd (snd (update_memories_after_response (\<lambda>t. Inr [1, 0]) Serving Serving Serving Serving ''c1''
          ''what is a monad really'' ''it is a monoid of endofunctors''
          \<lparr>now = 7, conversations = [], messages = []\<rparr> (run [])))) = [(''what is a monad really'', ''it is a monoid of endofunctors'')]
   \<and> fst (add_message Serving Failing ''c1'' ''user'' ''what is a monad really'' \<lparr>now = 7, conversations = [], messages = []\<rparr>) = Inl DatabaseError
   \<and> fst (update_memories_after_response (\<lambda>t. Inr [1, 0]) Serving Failing Serving Serving ''c1''
          ''what is a monad really'' ''it is a monoid of endofunctors''
          \<lparr>now = 7, conversations = [], messages = []\<rparr> (run [])) = Inl DatabaseError
   \<and> messages (fst (snd (update_memories_after_response (\<lambda>t. Inr [1, 0]) Serving Failing Serving Serving ''c1''
          ''what is a monad really'' ''it is a monoid of endofunctors''
          \<lparr>now = 7, conversations = [], messages = []\<rparr> (run [])))) = []
   \<and> snd (snd (update_memories_after_response (\<lambda>t. Inr [1, 0]) Serving Failing Serving Serving ''c1''
          ''what is a monad really'' ''it is a monoid of endofunctors''
          \<lparr>now = 7, conversations = [], messages = []\<rparr> (run []))) = run []
   \<and> fst (update_memories_after_response (\<lambda>t. Inr [1, 0]) Serving Serving Serving Failing ''c1''
          ''what is a monad really'' ''it is a monoid of endofunctors''
          \<lparr>now = 7, conversations = [], messages = []\<rparr> (run [])) = Inl DatabaseError
   \<and> messages (fst (snd (update_memories_after_response (\<lambda>t. Inr [1, 0]) Serving Serving Serving Failing ''c1''
          ''what is a monad really'' ''it is a monoid of endofunctors''
          \<lparr>now = 7, conversations = [], messages = []\<rparr> (run []))))
       = [\<lparr>row_conversation_id = ''c1'', row_role = ''user'', row_content = ''what is a monad really'',
             row_timestamp = 7\<rparr>]
   \<and> snd (snd (update_memories_after_response (\<lambda>t. Inr [1, 0]) Serving Serving Serving Failing ''c1''
          ''what is a monad really'' ''it is a monoid of endofunctors''
          \<lparr>now = 7, conversations = [], messages = []\<rparr> (run []))) = run []
   \<and> messages (fst (snd (update_memories_after_response (\<lambda>t. Inr [1, 0]) Refused Refused Refused Refused ''c1''
          ''what is a monad really'' ''it is a monoid of endofunctors''
          \<lparr>now = 7, conversations = [], messages = []\<rparr> (run [])))) = []
   \<and> entries (snd (snd (update_memories_after_response (\<lambda>t. Inr [1, 0]) Refused Refused Refused Refused ''c1''
          ''what is a monad really'' ''it is a monoid of endofunctors''
          \<lparr>now = 7, conversations = [], messages = []\<rparr> (run [])))) = [(''what is a monad really'', ''it is a monoid of endofunctors'')]"
proof -
  let ?db = "\<lparr>now = 7, conversations = [], messages = []\<rparr>"
  have keep: "should_store_in_vector_memory ''what is a monad really'' ''it is a monoid of endofunctors''"
    by code_simp
  have ix: "index (run []) = None"
    by (simp add: run_def FaissQAVectorStore_init_def)
  have none: "entries (run []) = []"
    by (simp add: run_def FaissQAVectorStore_init_def entries_def)
  have emb: "(\<lambda>t. Inr [1, 0]) ''what is a monad really'' = Inr [1, 0]" by simp
  note served = update_memories_steps
    [where embed_text = "(\<lambda>t. Inr [1, 0])" and ?srv1.0 = Serving and ?srv2.0 = Serving
       and ?srv3.0 = Serving and ?srv4.0 = Serving and cid = "''c1''" and question = "''what is a monad really''"
       and answer = "''it is a monoid of endofunctors''" and db = ?db and vs = "run []" and v = "[1, 0]" and calls = "[]"
       and e = DatabaseError]
  note fail1 = update_memories_steps
    [where embed_text = "(\<lambda>t. Inr [1, 0])" and ?srv1.0 = Serving and ?srv2.0 = Failing
       and ?srv3.0 = Serving and ?srv4.0 = Serving and cid = "''c1''" and question = "''what is a monad really''"
       and answer = "''it is a monoid of endofunctors''" and db = ?db and vs = "run []" and v = "[1, 0]" and calls = "[]"
       and e = DatabaseError]
  note fail2 = update_memories_steps
    [where embed_text = "(\<lambda>t. Inr [1, 0])" and ?srv1.0 = Serving and ?srv2.0 = Serving
       and ?srv3.0 = Serving and ?srv4.0 = Failing and cid = "''c1''" and question = "''what is a monad really''"
       and answer = "''it is a monoid of endofunctors''" and db = ?db and vs = "run []" and v = "[1, 0]" and calls = "[]"
       and e = DatabaseError]
  note refused = update_memories_steps
    [where embed_text = "(\<lambda>t. Inr [1, 0])" and ?srv1.0 = Refused and ?srv2.0 = Refused
       and ?srv3.0 = Refused and ?srv4.0 = Refused and cid = "''c1''" and question = "''what is a monad really''"
       and answer = "''it is a monoid of endofunctors''" and db = ?db and vs = "run []" and v = "[1, 0]" and calls = "[]"
       and e = DatabaseError]
  have s1: "messages (fst (snd (update_memories_after_response (\<lambda>t. Inr [1, 0]) Serving Serving Serving Serving ''c1''
          ''what is a monad really'' ''it is a monoid of endofunctors''
          \<lparr>now = 7, conversations = [], messages = []\<rparr> (run []))))
       = [\<lparr>row_conversation_id = ''c1'', row_role = ''user'', row_content = ''what is a monad really'',
             row_timestamp = 7\<rparr>,
          \<lparr>row_conversation_id = ''c1'', row_role = ''assistant'', row_content = ''it is a monoid of endofunctors'',
             row_timestamp = 7\<rparr>]"
    using served by simp
  have s2: "fst (update_memories_after_response (\<lambda>t. Inr [1, 0]) Serving Serving Serving Serving ''c1''
          ''what is a monad really'' ''it is a monoid of endofunctors''
          \<lparr>now = 7, conversations = [], messages = []\<rparr> (run [])) = Inr ()"
    and s3: "entries (snd (snd (update_memories_after_response (\<lambda>t. Inr [1, 0]) Serving Serving Serving Serving ''c1''
          ''what is a monad really'' ''it is a monoid of endofunctors''
          \<lparr>now = 7, conversations = [], messages = []\<rparr> (run [])))) = [(''what is a monad really'', ''it is a monoid of endofunctors'')]"
    using served keep emb ix none by simp_all
  have a1: "fst (add_message Serving Failing ''c1'' ''user'' ''what is a monad really'' ?db) = Inl DatabaseError"
    using fail1 by simp
  have f1: "update_memories_after_response (\<lambda>t. Inr [1, 0]) Serving Failing Serving Serving ''c1''
          ''what is a monad really'' ''it is a monoid of endofunctors''
          \<lparr>now = 7, conversations = [], messages = []\<rparr> (run []) = (Inl DatabaseError, snd (add_message Serving Failing ''c1'' ''user'' ''what is a monad really'' ?db), run [])"
    using fail1 by simp
  have f1m: "messages (snd (add_message Serving Failing ''c1'' ''user'' ''what is a monad really'' ?db)) = []"
    using fail1 by simp
  have f2: "update_memories_after_response (\<lambda>t. Inr [1, 0]) Serving Serving Serving Failing ''c1''
          ''what is a monad really'' ''it is a monoid of endofunctors''
          \<lparr>now = 7, conversations = [], messages = []\<rparr> (run [])
      = (Inl DatabaseError,
         snd (add_message Serving Failing ''c1'' ''assistant'' ''it is a monoid of endofunctors''
                (snd (add_message Serving Serving ''c1'' ''user'' ''what is a monad really'' ?db))), run [])"
    using fail2 by simp
  have f2m: "messages (snd (add_message Serving Failing ''c1'' ''assistant'' ''it is a monoid of endofunctors''
                (snd (add_message Serving Serving ''c1'' ''user'' ''what is a monad really'' ?db))))
      = [\<lparr>row_conversation_id = ''c1'', row_role = ''user'', row_content = ''what is a monad really'',
             row_timestamp = 7\<rparr>]"
    using fail2 by simp
  have r1: "fst (snd (update_memories_after_response (\<lambda>t. Inr [1, 0]) Refused Refused Refused Refused ''c1''
          ''what is a monad really'' ''it is a monoid of endofunctors''
          \<lparr>now = 7, conversations = [], messages = []\<rparr> (run [])))
      = snd (add_message Refused Refused ''c1'' ''assistant'' ''it is a monoid of endofunctors''
                (snd (add_message Refused Refused ''c1'' ''user'' ''what is a monad really'' ?db)))"
    and r2: "entries (snd (snd (update_memories_after_response (\<lambda>t. Inr [1, 0]) Refused Refused Refused Refused ''c1''
          ''what is a monad really'' ''it is a monoid of endofunctors''
          \<lparr>now = 7, conversations = [], messages = []\<rparr> (run [])))) = [(''what is a monad really'', ''it is a monoid of endofunctors'')]"
    using refused keep emb ix none by simp_all
  have r1m: "messages (snd (add_message Refused Refused ''c1'' ''assistant'' ''it is a monoid of endofunctors''
                (snd (add_message Refused Refused ''c1'' ''user'' ''what is a monad really'' ?db)))) = []"
    using refused by simp
  show ?thesis
    using keep ix s1 s2 s3 a1 f1 f1m f2 f2m r1 r1m r2 by simp
qed

text \<open>
  The second persistence call raises: one row has been stored, not two, and the store
  has received nothing although the heuristic accepts the exchange and the embedding
  call would succeed.
\<close>

theorem update_persistence_raises_counterexample:
  "should_store_in_vector_memory ''what is a monad really'' ''it is a monoid of endofunctors''
   \<and> (\<lambda>t. Inr [1, 0]) ''what is a monad really'' = (Inr [1, 0] :: vec result)
   \<and> update_memories_after_response (\<lambda>t. Inr [1, 0]) Serving Serving Serving Failing ''c1''
          ''what is a monad really'' ''it is a monoid of endofunctors''
          \<lparr>now = 7, conversations = [], messages = []\<rparr> (run [])
     = (Inl DatabaseError,
        \<lparr>now = 7, conversations = [(''c1'', ''what is a monad really'')],
         messages = [\<lparr>row_conversation_id = ''c1'', row_role = ''user'', row_content = ''what is a monad really'',
             row_timestamp = 7\<rparr>]\<rparr>,
        run [])
   \<and> entries (run []) = []"
proof -
  have keep: "should_store_in_vector_memory ''what is a monad really'' ''it is a monoid of endofunctors''"
    by code_simp
  have upd: "update_memories_after_response (\<lambda>t. Inr [1, 0]) Serving Serving Serving Failing ''c1''
          ''what is a monad really'' ''it is a monoid of endofunctors''
          \<lparr>now = 7, conversations = [], messages = []\<rparr> (run [])
     = (Inl DatabaseError,
        \<lparr>now = 7, conversations = [(''c1'', ''what is a monad really'')],
         messages = [\<lparr>row_conversation_id = ''c1'', row_role = ''user'', row_content = ''what is a monad really'',
             row_timestamp = 7\<rparr>]\<rparr>,
        run [])"
    by (simp add: update_memories_after_response_def add_message_def
        ensure_conversation_exists_def Let_def)
  have none: "entries (run []) = []"
    by (simp add: run_def FaissQAVectorStore_init_def entries_def)
  show ?thesis
    using keep upd none by simp
qed


end
